theory Spec2Isabelle
  imports Complex_Main "HOL-Library.AList"
begin

section \<open>Log curves (welly/curve.py)\<close>

text \<open>
  A shallow embedding of the class \<open>Curve\<close> of \<open>welly/curve.py\<close>. Floating-point
  numbers are idealised as real numbers (there is no NaN and no rounding), Python
  exceptions are values of the type \<open>error\<close>, and a function that can raise returns
  \<open>error + 'a\<close> with \<open>Inl\<close> for the exception.
\<close>

subsection \<open>Errors and Python indexing\<close>

datatype error =
    IndexError
  | ValueError
  | TypeError
  | KeyError
  | UnboundLocalError
  | OverflowError
  | ZeroDivisionError
  | CurveError
  | NotANumber

text \<open>
  The last value, \<open>NotANumber\<close>, is not an exception: it marks a result that the code
  computes with NaN in it, which the real numbers do not have.
\<close>

text \<open>\<open>xs[i]\<close> for a Python list or a one-dimensional array: a negative index counts
  from the end, an index out of range raises IndexError.\<close>

definition getitem :: "'a list \<Rightarrow> int \<Rightarrow> error + 'a" where
  "getitem xs i =
     (if 0 \<le> i \<and> i < int (length xs) then Inr (xs ! nat i)
      else if i < 0 \<and> - int (length xs) \<le> i then Inr (xs ! nat (int (length xs) + i))
      else Inl IndexError)"

text \<open>\<open>xs[a:b]\<close> for \<open>0 \<le> a\<close>, \<open>0 \<le> b\<close>, and \<open>xs[a:]\<close>.\<close>

definition slice :: "'a list \<Rightarrow> nat \<Rightarrow> nat \<Rightarrow> 'a list" where
  "slice xs a b = take (b - a) (drop a xs)"

subsection \<open>The data model\<close>

text \<open>
  A \<open>Curve\<close> is an array of samples that carries \<open>start\<close>, \<open>step\<close> and the
  mnemonic (a curve built without one has \<open>mnemonic = None\<close>). The other descriptive
  attributes (units, run, null, ...) are copied along by every operation and play no
  part below. The sample type is a parameter: \<open>real\<close> for an ordinary curve,
  \<open>real option\<close> where an operation may fill in NaN (written \<open>None\<close>).
\<close>

record 'v curve =
  samples :: "'v list"
  start :: real
  step :: real
  mnemonic :: "string option"

subsection \<open>numpy.linspace\<close>

text \<open>
  \<open>np.linspace(a, b, num, endpoint=True)\<close>: a negative \<open>num\<close> raises ValueError;
  with \<open>div = num - 1 > 0\<close> the points are \<open>arange(num) * ((b - a) / div) + a\<close> and the
  last one is then overwritten by \<open>b\<close>; with \<open>div \<le> 0\<close> they are
  \<open>arange(num) * (b - a) + a\<close>.
\<close>

definition linspace :: "real \<Rightarrow> real \<Rightarrow> int \<Rightarrow> error + real list" where
  "linspace a b num =
     (if num < 0 then Inl ValueError
      else
        let n = nat num; dv = n - 1 in
        if dv > 0
        then Inr ((map (\<lambda>i. real i * ((b - a) / real dv) + a) [0..<n]) [n - 1 := b])
        else Inr (map (\<lambda>i. real i * (b - a) + a) [0..<n]))"

subsection \<open>Basis geometry: \<open>Curve.stop\<close> and \<open>Curve.basis\<close>\<close>

definition stop :: "'v curve \<Rightarrow> real" where
  "stop c = start c + real_of_int (int (length (samples c)) - 1) * step c"

definition basis :: "'v curve \<Rightarrow> error + real list" where
  "basis c = linspace (start c) (stop c) (int (length (samples c)))"

subsection \<open>Quality tests\<close>

text \<open>
  A test is a named function from a curve to a result (\<open>test.__name__\<close> and
  \<open>test(curve)\<close>). The test mapping sends a key to a list of entries, an entry being a
  test or \<open>None\<close>; only \<open>tests.get\<close> is used on it, so it is a map. The alias mapping
  is iterated in order, so it is an association list.
\<close>

datatype ('v, 'r) test = Test (test_name: string) (test_call: "'v curve \<Rightarrow> 'r")

type_synonym ('v, 'r) tests = "string \<rightharpoonup> ('v, 'r) test option list"

type_synonym aliases = "(string \<times> string list) list"

text \<open>\<open>d.get(k)\<close> and \<open>d.get(k, default)\<close> for a dictionary with string keys; the
  key looked up may be \<open>None\<close> (the mnemonic of an unnamed curve), which is never present.\<close>

definition dict_get :: "(string \<rightharpoonup> 'a) \<Rightarrow> string option \<Rightarrow> 'a option" where
  "dict_get d k = (case k of None \<Rightarrow> None | Some s \<Rightarrow> d s)"

definition dict_get_or :: "(string \<rightharpoonup> 'a) \<Rightarrow> string option \<Rightarrow> 'a \<Rightarrow> 'a" where
  "dict_get_or d k dflt = (case dict_get d k of None \<Rightarrow> dflt | Some v \<Rightarrow> v)"

text \<open>\<open>Curve.get_alias\<close>: the keys of the alias mapping whose list holds the mnemonic.\<close>

definition get_alias :: "'v curve \<Rightarrow> aliases option \<Rightarrow> string list" where
  "get_alias c alias =
     (let alias = (case alias of None \<Rightarrow> [] | Some a \<Rightarrow> a)
      in map fst (filter (\<lambda>(k, v). case mnemonic c of None \<Rightarrow> False | Some m \<Rightarrow> m \<in> set v) alias))"

text \<open>
  Modelled from the spec: \<open>utils.flatten_list\<close> is not among the sources. By section 4.4
  the tests of every alias group are accumulated and entries that are \<open>None\<close> are filtered
  out afterwards: the list of a group is spliced in, and a group without an entry in the
  test mapping contributes the \<open>None\<close> that \<open>tests.get\<close> returned for it.
\<close>

fun flatten_list :: "'a option list option list \<Rightarrow> 'a option list" where
  "flatten_list [] = []"
| "flatten_list (None # l) = None # flatten_list l"
| "flatten_list (Some xs # l) = xs @ flatten_list l"

text \<open>\<open>filter(None, xs)\<close>: drops the falsy entries; a test function is truthy, \<open>None\<close>
  is not.\<close>

fun filter_None :: "'a option list \<Rightarrow> 'a list" where
  "filter_None [] = []"
| "filter_None (None # xs) = filter_None xs"
| "filter_None (Some x # xs) = x # filter_None xs"

text \<open>The dictionary comprehension \<open>{test.__name__: test(self) for test in this_tests}\<close>:
  a dictionary in insertion order, where a name that comes again keeps its place and takes
  the later result.\<close>

definition run_tests :: "'v curve \<Rightarrow> ('v, 'r) test list \<Rightarrow> (string \<times> 'r) list" where
  "run_tests c this_tests =
     foldl (\<lambda>d t. AList.update (test_name t) (test_call t c) d) [] this_tests"

text \<open>\<open>Curve.quality\<close>. \<open>tests.get(self.mnemonic, 1)\<close> is falsy exactly when the key is
  present with an empty list.\<close>

definition quality :: "'v curve \<Rightarrow> ('v, 'r) tests \<Rightarrow> aliases option \<Rightarrow> (string \<times> 'r) list" where
  "quality c tests alias =
     (let this_tests =
            dict_get_or tests (Some ''each'') [] @ dict_get_or tests (Some ''Each'') []
            @ dict_get_or tests (Some ''EACH'') []
            @ dict_get_or tests (mnemonic c) []
            @ flatten_list (map tests (get_alias c alias));
          this_tests1 = filter_None this_tests;
          this_tests2 = (if dict_get tests (mnemonic c) = Some [] then [] else this_tests1)
      in run_tests c this_tests2)"

text \<open>\<open>Curve.qflag\<close>.\<close>

definition qflag :: "'v curve \<Rightarrow> ('v, 'r) tests \<Rightarrow> aliases option \<Rightarrow> (string \<times> 'r) list" where
  "qflag c tests alias =
     (let this_tests =
            dict_get_or tests (Some ''each'') [] @ dict_get_or tests (Some ''Each'') []
            @ dict_get_or tests (Some ''EACH'') []
            @ dict_get_or tests (mnemonic c) []
            @ flatten_list (map tests (get_alias c alias));
          this_tests1 = filter_None this_tests
      in run_tests c this_tests1)"

text \<open>\<open>Curve.qflags\<close>.\<close>

definition qflags :: "'v curve \<Rightarrow> ('v, 'r) tests \<Rightarrow> aliases option \<Rightarrow> (string \<times> 'r) list" where
  "qflags c tests alias =
     (let this_tests =
            dict_get_or tests (Some ''each'') [] @ dict_get_or tests (Some ''Each'') []
            @ dict_get_or tests (Some ''EACH'') []
            @ dict_get_or tests (mnemonic c) []
            @ flatten_list (map tests (get_alias c alias));
          this_tests1 = filter_None this_tests
      in run_tests c this_tests1)"

text \<open>\<open>Curve.quality_score\<close>, for tests that return booleans: \<open>sum\<close> counts \<open>True\<close>
  as 1, and the division is true division.\<close>

definition quality_score :: "'v curve \<Rightarrow> ('v, bool) tests \<Rightarrow> aliases option \<Rightarrow> real" where
  "quality_score c tests alias =
     (let results = map snd (quality c tests alias)
      in if results \<noteq> []
         then real_of_int (sum_list (map of_bool results)) / real (length results)
         else - 1)"

text \<open>
  For the statements below: the entries the three gathering steps collect for a curve
  (wildcard keys, the mnemonic, then the alias groups, in this order), and the tests
  \<open>quality\<close> finally runs.
\<close>

definition gathered :: "'v curve \<Rightarrow> ('v, 'r) tests \<Rightarrow> aliases option \<Rightarrow> ('v, 'r) test option list" where
  "gathered c tests alias =
     dict_get_or tests (Some ''each'') [] @ dict_get_or tests (Some ''Each'') []
     @ dict_get_or tests (Some ''EACH'') []
     @ dict_get_or tests (mnemonic c) []
     @ flatten_list (map tests (get_alias c alias))"

text \<open>The last of the tests \<open>ts\<close> that has the name \<open>n\<close>.\<close>

definition last_named :: "('v, 'r) test list \<Rightarrow> string \<Rightarrow> ('v, 'r) test" where
  "last_named ts n = last (filter (\<lambda>t. test_name t = n) ts)"

definition resolved :: "'v curve \<Rightarrow> ('v, 'r) tests \<Rightarrow> aliases option \<Rightarrow> ('v, 'r) test list" where
  "resolved c tests alias =
     (if dict_get tests (mnemonic c) = Some [] then [] else filter_None (gathered c tests alias))"

subsection \<open>numpy.digitize\<close>

text \<open>
  \<open>np.digitize(x, bins, right)\<close>. The bins must be one-dimensional and monotonic:
  non-decreasing bins (an empty or constant array included) have monotonicity 1,
  non-increasing ones -1, others 0, which raises ValueError. The index of a value is found
  by \<open>searchsorted\<close> on the sorted bins, with \<open>side = 'left'\<close> if \<open>right\<close> else \<open>'right'\<close>;
  for a sorted array that is the number of leading elements \<open>< v\<close>, respectively \<open>\<le> v\<close>. For
  non-increasing bins the bins are reversed and the result is subtracted from their number.
\<close>

definition monotonicity :: "real list \<Rightarrow> int" where
  "monotonicity bins = (if sorted bins then 1 else if sorted (rev bins) then - 1 else 0)"

definition searchsorted :: "real list \<Rightarrow> real \<Rightarrow> bool \<Rightarrow> nat" where
  "searchsorted a v right =
     (if right then length (takeWhile (\<lambda>b. b < v) a) else length (takeWhile (\<lambda>b. b \<le> v) a))"

definition digitize1 :: "real list \<Rightarrow> bool \<Rightarrow> real \<Rightarrow> nat" where
  "digitize1 bins right v =
     (if monotonicity bins = - 1 then length bins - searchsorted (rev bins) v right
      else searchsorted bins v right)"

definition digitize :: "real list \<Rightarrow> real list \<Rightarrow> bool \<Rightarrow> error + nat list" where
  "digitize x bins right =
     (if monotonicity bins = 0 then Inl ValueError else Inr (map (digitize1 bins right) x))"

subsection \<open>Blocking: \<open>Curve.block\<close>\<close>

text \<open>The \<open>cutoffs\<close> argument is a single number or a sequence of numbers.\<close>

datatype cutoffs = Scalar real | Seq "real list"

text \<open>\<open>np.mean\<close> (of an empty array numpy returns NaN with a warning, where this gives 0:
  nothing is digitized then), \<open>np.amin\<close> and \<open>np.amax\<close> (ValueError on an empty array).\<close>

definition mean :: "real list \<Rightarrow> real" where
  "mean xs = sum_list xs / real (length xs)"

definition amin :: "real list \<Rightarrow> error + real" where
  "amin xs = (if xs = [] then Inl ValueError else Inr (Min (set xs)))"

definition amax :: "real list \<Rightarrow> error + real" where
  "amax xs = (if xs = [] then Inl ValueError else Inr (Max (set xs)))"

text \<open>
  The cutoffs \<open>block\<close> digitizes with (the three \<open>if\<close> statements before the \<open>try\<close>):
  the given ones; else all but the first of \<open>values\<close>; else, with \<open>n_bins == 0\<close>, the mean
  of the curve; else \<open>np.linspace(mi, ma, n_bins+1)[:-1]\<close>.
\<close>

definition block_cutoffs ::
  "real curve \<Rightarrow> cutoffs option \<Rightarrow> real list option \<Rightarrow> int \<Rightarrow> error + cutoffs" where
  "block_cutoffs c cutoffs values n_bins =
     (let cutoffs1 = (case (values, cutoffs) of
                        (Some vs, None) \<Rightarrow> Some (Seq (drop 1 vs))
                      | _ \<Rightarrow> cutoffs)
      in case cutoffs1 of
           Some k \<Rightarrow> Inr k
         | None \<Rightarrow>
             if n_bins = 0 then Inr (Scalar (mean (samples c)))
             else (case amin (samples c) of Inl e \<Rightarrow> Inl e | Inr mi \<Rightarrow>
                   case amax (samples c) of Inl e \<Rightarrow> Inl e | Inr ma \<Rightarrow>
                   case linspace mi ma (n_bins + 1) of Inl e \<Rightarrow> Inl e | Inr l \<Rightarrow>
                   Inr (Seq (butlast l))))"

text \<open>
  \<open>try: np.digitize(self, cutoffs, right) except ValueError: np.digitize(self, [cutoffs],
  right)\<close>. A number is not a one-dimensional array of bins, so the first call raises
  ValueError and the second digitizes with the one-element list. Bins that are a
  non-monotonic sequence raise ValueError in the first call, and in the second as well,
  where they are two-dimensional.
\<close>

fun block_digitize :: "real list \<Rightarrow> cutoffs \<Rightarrow> bool \<Rightarrow> error + nat list" where
  "block_digitize x (Scalar k) right = digitize x [k] right"
| "block_digitize x (Seq bins) right =
     (case digitize x bins right of Inl e \<Rightarrow> Inl ValueError | Inr d \<Rightarrow> Inr d)"

text \<open>
  Modelled from the spec: \<open>utils.find_edges\<close> is not among the sources. By section 4.9 the
  zones are the contiguous runs of identical zone index, found by edge detection on the
  zone-index array: \<open>tops\<close> holds the index at which each zone starts (0 for the first,
  then every index whose value differs from the one before), \<open>vals\<close> the value of each zone.
\<close>

definition find_edges :: "real list \<Rightarrow> nat list \<times> real list" where
  "find_edges a =
     (if a = [] then ([], [])
      else let tops = 0 # filter (\<lambda>i. a ! i \<noteq> a ! (i - 1)) [1..<length a]
           in (tops, map (\<lambda>i. a ! i) tops))"

text \<open>\<open>data[top:base] = v\<close> and \<open>data[base:] = v\<close> for a number \<open>v\<close> (the loop
  variable \<open>top\<close> is written \<open>tp\<close>).\<close>

definition fill :: "real list \<Rightarrow> nat \<Rightarrow> nat \<Rightarrow> real \<Rightarrow> real list" where
  "fill data tp base v =
     map (\<lambda>i. if tp \<le> i \<and> i < base then v else data ! i) [0..<length data]"

definition fill_from :: "real list \<Rightarrow> nat \<Rightarrow> real \<Rightarrow> real list" where
  "fill_from data base v = fill data base (length data) v"

text \<open>
  The loop over \<open>zip(tops[:-1], tops[1:])\<close> with a reducing function. The state is the
  array \<open>data\<close> and the loop variable \<open>base\<close>, which is unbound (\<open>None\<close>) until the body
  has run once and keeps its last value after the loop.
\<close>

fun reduce_zones ::
  "(real list \<Rightarrow> real) \<Rightarrow> real list \<Rightarrow> (nat \<times> nat) list \<Rightarrow> real list \<times> nat option
    \<Rightarrow> real list \<times> nat option" where
  "reduce_zones f self [] st = st"
| "reduce_zones f self ((tp, base) # zs) (data, b) =
     reduce_zones f self zs (fill data tp base (f (slice self tp base)), Some base)"

text \<open>The loop over \<open>zip(tops[:-1], tops[1:], vals[:-1])\<close> with a \<open>values\<close> list;
  \<open>values[int(val)]\<close> raises IndexError out of range.\<close>

fun map_zones ::
  "real list \<Rightarrow> (nat \<times> nat \<times> real) list \<Rightarrow> real list \<times> nat option
    \<Rightarrow> error + real list \<times> nat option" where
  "map_zones vs [] st = Inr st"
| "map_zones vs ((tp, base, val) # zs) (data, b) =
     (case getitem vs \<lfloor>val\<rfloor> of
        Inl e \<Rightarrow> Inl e
      | Inr v \<Rightarrow> map_zones vs zs (fill data tp base v, Some base))"

text \<open>
  \<open>Curve.block\<close>. Without a function and without values the zone indices are returned.
  Otherwise the zones are transformed in the loop and the last segment after it, in
  \<open>data[base:] = ...\<close>, whose right-hand side is evaluated first; \<open>base\<close> is read there
  where the loop has not bound it, which raises UnboundLocalError.
\<close>

definition block ::
  "real curve \<Rightarrow> cutoffs option \<Rightarrow> real list option \<Rightarrow> int \<Rightarrow> bool
    \<Rightarrow> (real list \<Rightarrow> real) option \<Rightarrow> error + real curve" where
  "block c cutoffs values n_bins right function =
     (case block_cutoffs c cutoffs values n_bins of Inl e \<Rightarrow> Inl e | Inr k \<Rightarrow>
      case block_digitize (samples c) k right of Inl e \<Rightarrow> Inl e | Inr zone \<Rightarrow>
      let data = map real zone in
      case (function, values) of
        (None, None) \<Rightarrow> Inr (c\<lparr>samples := data\<rparr>)
      | (Some f, None) \<Rightarrow>
          (let (tops, vals) = find_edges data;
               (data1, base) = reduce_zones f (samples c) (zip (butlast tops) (tl tops)) (data, None)
           in case base of
                None \<Rightarrow> Inl UnboundLocalError
              | Some b \<Rightarrow> Inr (c\<lparr>samples := fill_from data1 b (f (drop b (samples c)))\<rparr>))
      | (_, Some vs) \<Rightarrow>
          (let (tops, vals) = find_edges data
           in case map_zones vs (zip (butlast tops) (zip (tl tops) (butlast vals))) (data, None) of
                Inl e \<Rightarrow> Inl e
              | Inr (data1, base) \<Rightarrow>
                  (case getitem vals (- 1) of Inl e \<Rightarrow> Inl e | Inr lastval \<Rightarrow>
                   case getitem vs \<lfloor>lastval\<rfloor> of Inl e \<Rightarrow> Inl e | Inr v \<Rightarrow>
                   case base of
                     None \<Rightarrow> Inl UnboundLocalError
                   | Some b \<Rightarrow> Inr (c\<lparr>samples := fill_from data1 b v\<rparr>))))"

text \<open>
  For comparison with the code, the cutoffs as the specification words them for \<open>n_bins\<close>:
  the interior boundaries of \<open>n_bins\<close> equal-width bins spanning \<open>[mi, ma]\<close>, that is
  \<open>n_bins - 1\<close> cutoffs without the minimum and without the maximum.
\<close>

definition spec_interior_cutoffs :: "real \<Rightarrow> real \<Rightarrow> nat \<Rightarrow> real list" where
  "spec_interior_cutoffs mi ma n = map (\<lambda>i. mi + real i * ((ma - mi) / real n)) [1..<n]"

text \<open>What the code computes for \<open>n_bins\<close>: the lower edges of the \<open>n\<close> bins, the
  minimum included.\<close>

definition lower_bin_edges :: "real \<Rightarrow> real \<Rightarrow> nat \<Rightarrow> real list" where
  "lower_bin_edges mi ma n = map (\<lambda>i. real i * ((ma - mi) / real n) + mi) [0..<n]"

subsection \<open>Point read: \<open>Curve._read_at\<close> and \<open>Curve.read_at\<close>\<close>

text \<open>
  Modelled from the spec: \<open>utils.find_previous\<close> and \<open>utils.linear\<close> are not among the
  sources. By section 4.8 the read locates the basis index at or before the query point
  and interpolates linearly between that sample and its successor using the fractional
  distance. \<open>find_previous a value\<close> returns that index, the last \<open>i\<close> with
  \<open>a[i] \<le> value\<close>, and the fraction of the way from \<open>a[i]\<close> to \<open>a[i+1]\<close>; at the last
  index, where there is no successor, the fraction is 0 (the edge sample unextended). A
  query before the first point has no index at or before it, which is a fault here.
\<close>

definition find_previous :: "real list \<Rightarrow> real \<Rightarrow> error + nat \<times> real" where
  "find_previous a value =
     (case filter (\<lambda>i. a ! i \<le> value) [0..<length a] of
        [] \<Rightarrow> Inl IndexError
      | j # js \<Rightarrow>
          let i = last (j # js)
          in Inr (i, if i + 1 < length a then (value - a ! i) / (a ! (i + 1) - a ! i) else 0))"

definition linear :: "real \<Rightarrow> real \<Rightarrow> real \<Rightarrow> real" where
  "linear u v d = u + d * (v - u)"

text \<open>The dictionary \<open>method = {'linear': utils.linear, 'none': None}\<close>; another key
  raises KeyError.\<close>

definition method_dict :: "string \<Rightarrow> error + (real \<Rightarrow> real \<Rightarrow> real \<Rightarrow> real) option" where
  "method_dict interpolation =
     (if interpolation = ''linear'' then Inr (Some linear)
      else if interpolation = ''none'' then Inr None
      else Inl KeyError)"

text \<open>The result of a read: the interpolated value, or the index with \<open>index=True\<close>.\<close>

datatype reading = Value real | Index nat

text \<open>
  \<open>Curve._read_at\<close> (written \<open>private_read_at\<close>), with the helper that locates the index
  as a parameter \<open>fp\<close>. In \<open>method[interpolation](self[i], self[i+1], d)\<close> the function is
  looked up first, then \<open>self[i]\<close> and \<open>self[i+1]\<close> are read, each raising IndexError out of
  range, and then the function is called; calling \<open>None\<close> raises TypeError.
\<close>

definition private_read_at ::
  "(real list \<Rightarrow> real \<Rightarrow> error + nat \<times> real) \<Rightarrow> real curve \<Rightarrow> real \<Rightarrow> string \<Rightarrow> bool
    \<Rightarrow> error + reading" where
  "private_read_at fp c d interpolation index =
     (case basis c of Inl e \<Rightarrow> Inl e | Inr b \<Rightarrow>
      case fp b d of Inl e \<Rightarrow> Inl e | Inr (i, t) \<Rightarrow>
      if index then Inr (Index i)
      else
        case method_dict interpolation of Inl e \<Rightarrow> Inl e | Inr m \<Rightarrow>
        case getitem (samples c) (int i) of Inl e \<Rightarrow> Inl e | Inr u \<Rightarrow>
        case getitem (samples c) (int i + 1) of Inl e \<Rightarrow> Inl e | Inr v \<Rightarrow>
        case m of None \<Rightarrow> Inl TypeError | Some f \<Rightarrow> Inr (Value (f u v t)))"

text \<open>
  \<open>Curve.read_at\<close> for a scalar query \<open>d\<close>: iterating over the number raises TypeError
  inside the \<open>try\<close>, and the \<open>except\<close> branch returns \<open>self._read_at(d, **kwargs)\<close>, whose
  exceptions propagate.
\<close>

definition read_at ::
  "(real list \<Rightarrow> real \<Rightarrow> error + nat \<times> real) \<Rightarrow> real curve \<Rightarrow> real \<Rightarrow> string \<Rightarrow> bool
    \<Rightarrow> error + reading" where
  "read_at fp c d interpolation index = private_read_at fp c d interpolation index"

text \<open>The contract of section 4.8 for the locating helper: an index it returns is the
  last basis index at or before the query point.\<close>

definition at_or_before :: "(real list \<Rightarrow> real \<Rightarrow> error + nat \<times> real) \<Rightarrow> bool" where
  "at_or_before fp =
     (\<forall>a v i t. fp a v = Inr (i, t) \<longrightarrow>
        i < length a \<and> a ! i \<le> v \<and> (\<forall>j < length a. a ! j \<le> v \<longrightarrow> j \<le> i))"

subsection \<open>numpy.interp and scipy's interp1d\<close>

text \<open>
  \<open>np.interp(x, xp, fp)\<close>: a point right of \<open>xp[-1]\<close> gets \<open>fp[-1]\<close> (tested first), a point
  left of \<open>xp[0]\<close> gets \<open>fp[0]\<close>; otherwise the index \<open>j\<close> is the one before the first
  \<open>i \<ge> 1\<close> with \<open>x < xp[i]\<close> (the last index if there is none), and the point gets \<open>fp[j]\<close>
  if \<open>j\<close> is the last index or \<open>x = xp[j]\<close>, and \<open>slope * (x - xp[j]) + fp[j]\<close> otherwise. An
  empty \<open>xp\<close> and arrays of different lengths raise ValueError. numpy finds \<open>j\<close> by this
  linear search for up to 8 points and by bisection for more, which is the same index
  whenever \<open>xp\<close> is non-decreasing; numpy does not check that, and for other \<open>xp\<close> of more
  than 8 points its result is not specified and need not be the one below.
\<close>

fun interp_scan :: "(real \<times> real) list \<Rightarrow> real \<Rightarrow> real" where
  "interp_scan [] x = 0"
| "interp_scan [(x0, y0)] x = y0"
| "interp_scan ((x0, y0) # (x1, y1) # ps) x =
     (if x < x1
      then (if x = x0 then y0 else (y1 - y0) / (x1 - x0) * (x - x0) + y0)
      else interp_scan ((x1, y1) # ps) x)"

definition np_interp1 :: "real list \<Rightarrow> real list \<Rightarrow> real \<Rightarrow> real" where
  "np_interp1 xp fp x =
     (if last xp < x then last fp else if x < hd xp then hd fp else interp_scan (zip xp fp) x)"

definition np_interp :: "real list \<Rightarrow> real list \<Rightarrow> real list \<Rightarrow> error + real list" where
  "np_interp x xp fp =
     (if xp = [] then Inl ValueError
      else if length xp \<noteq> length fp then Inl ValueError
      else Inr (map (np_interp1 xp fp) x))"

text \<open>
  \<open>interp1d(x, y, kind='linear', bounds_error=False, fill_value=undefined)\<close>: the points
  are sorted by \<open>x\<close> (a stable sort, \<open>assume_sorted=False\<close>); the interpolant evaluates
  \<open>np.interp\<close> on the sorted points and puts the fill value at every query below the
  smallest or above the largest \<open>x\<close>. The fill value \<open>None\<close> is NaN, the default of
  \<open>to_basis\<close>.
\<close>

definition interp1d :: "real list \<Rightarrow> real list \<Rightarrow> real option \<Rightarrow> error + (real \<Rightarrow> real option)" where
  "interp1d x y fill_value =
     (if length x \<noteq> length y \<or> x = [] then Inl ValueError
      else
        let ps = sort_key fst (zip x y); xs = map fst ps; ys = map snd ps
        in Inr (\<lambda>x_new. if x_new < hd xs \<or> last xs < x_new then fill_value
                          else Some (np_interp1 xs ys x_new)))"

subsection \<open>Basis resampling: \<open>Curve.to_basis\<close>\<close>

text \<open>
  The number of samples \<open>to_basis\<close> produces is the ceiling of a quotient of floats, so
  rounding decides it. The four operations of floating-point arithmetic are therefore a
  parameter here: any four functions on the (finite) numbers. \<open>exact\<close> is the
  idealisation used in the other sections.
\<close>

record arith =
  fadd :: "real \<Rightarrow> real \<Rightarrow> real"
  fsub :: "real \<Rightarrow> real \<Rightarrow> real"
  fmul :: "real \<Rightarrow> real \<Rightarrow> real"
  fdiv :: "real \<Rightarrow> real \<Rightarrow> real"

definition exact :: arith where
  "exact = \<lparr>fadd = (+), fsub = (-), fmul = (*), fdiv = (/)\<rparr>"

text \<open>
  \<open>Curve.stop\<close>, \<open>np.linspace\<close> and \<open>Curve.basis\<close> over such an arithmetic. In
  \<open>np.linspace\<close>, \<open>delta = stop - start\<close> and \<open>step = delta / div\<close>; the points are
  \<open>arange(num) * step + start\<close>, or \<open>arange(num) / div * delta + start\<close> where the step is
  0, and the last one is overwritten by \<open>stop\<close>.
\<close>

definition stop_fl :: "arith \<Rightarrow> 'v curve \<Rightarrow> real" where
  "stop_fl ar c =
     fadd ar (start c) (fmul ar (real_of_int (int (length (samples c)) - 1)) (step c))"

definition linspace_fl :: "arith \<Rightarrow> real \<Rightarrow> real \<Rightarrow> int \<Rightarrow> error + real list" where
  "linspace_fl ar a b num =
     (if num < 0 then Inl ValueError
      else
        let n = nat num; dv = n - 1; delta = fsub ar b a in
        if dv > 0
        then
          let st = fdiv ar delta (real dv);
              y = (if st = 0
                   then map (\<lambda>i. fmul ar (fdiv ar (real i) (real dv)) delta) [0..<n]
                   else map (\<lambda>i. fmul ar (real i) st) [0..<n])
          in Inr ((map (\<lambda>v. fadd ar v a) y) [n - 1 := b])
        else Inr (map (\<lambda>i. fadd ar (fmul ar (real i) delta) a) [0..<n]))"

definition basis_fl :: "arith \<Rightarrow> 'v curve \<Rightarrow> error + real list" where
  "basis_fl ar c = linspace_fl ar (start c) (stop_fl ar c) (int (length (samples c)))"

text \<open>
  \<open>Curve.to_basis(basis=..., undefined=...)\<close> with \<open>interp_kind='linear'\<close> and the
  arguments \<open>start\<close>, \<open>stop\<close> and \<open>step\<close> left at \<open>None\<close>: the new start, stop and
  step are \<open>basis[0]\<close>, \<open>basis[-1]\<close> and \<open>basis[1] - basis[0]\<close>, each raising IndexError out
  of range. A new step of 0 makes the quotient NaN or infinite, and \<open>int(steps)\<close> raises
  ValueError, respectively OverflowError. The interpolant is built over \<open>self.basis\<close> and
  the samples; between its points it is idealised as in the section before. The result
  has samples of type \<open>real option\<close>, \<open>None\<close> being NaN.
\<close>

definition to_basis ::
  "arith \<Rightarrow> real curve \<Rightarrow> real list \<Rightarrow> real option \<Rightarrow> error + real option curve" where
  "to_basis ar c basis_arg undefined_arg =
     (case getitem basis_arg 0 of Inl e \<Rightarrow> Inl e | Inr new_start \<Rightarrow>
      case getitem basis_arg (- 1) of Inl e \<Rightarrow> Inl e | Inr new_stop \<Rightarrow>
      case getitem basis_arg 1 of Inl e \<Rightarrow> Inl e | Inr b1 \<Rightarrow>
      case getitem basis_arg 0 of Inl e \<Rightarrow> Inl e | Inr b0 \<Rightarrow>
      let new_step = fsub ar b1 b0; diff = fsub ar new_stop new_start in
      if new_step = 0
      then Inl (if diff = 0 then ValueError else OverflowError)
      else
        let steps = \<lceil>fdiv ar diff new_step\<rceil> in
        case linspace_fl ar new_start new_stop (steps + 1) of Inl e \<Rightarrow> Inl e | Inr new_basis \<Rightarrow>
        case basis_fl ar c of Inl e \<Rightarrow> Inl e | Inr b \<Rightarrow>
        case interp1d b (samples c) undefined_arg of Inl e \<Rightarrow> Inl e | Inr interp \<Rightarrow>
        Inr \<lparr>samples = map interp new_basis, start = new_start, step = new_step,
             mnemonic = mnemonic c\<rparr>)"

subsection \<open>Construction: \<open>Curve.from_lasio_curve\<close>\<close>

text \<open>
  The lasio curve object: its data array, unit and mnemonic (the description and the API
  code are stored as further attributes and not modelled).
\<close>

record lasio_curve =
  lc_data :: "real list"
  lc_unit :: string
  lc_mnemonic :: string

text \<open>
  \<open>np.diff\<close>; \<open>np.allclose(a, b)\<close> with the default tolerances, \<open>|a - b| \<le> 1e-8 + 1e-5 * |b|\<close>
  elementwise; \<open>np.nanmedian\<close>, which is NaN (\<open>None\<close>) for an empty array; and
  \<open>np.arange(start, stop, step)\<close>, whose length is \<open>ceil((stop - start) / step)\<close>, or 0 if
  that is negative, and which raises ValueError for a step of 0.
\<close>

definition np_diff :: "real list \<Rightarrow> real list" where
  "np_diff a = map (\<lambda>(x, y). y - x) (zip a (tl a))"

definition allclose :: "real list \<Rightarrow> real list \<Rightarrow> bool" where
  "allclose a b = list_all2 (\<lambda>x y. \<bar>x - y\<bar> \<le> 1 / 10 ^ 8 + 1 / 10 ^ 5 * \<bar>y\<bar>) a b"

definition median :: "real list \<Rightarrow> real option" where
  "median a =
     (let s = sort a; n = length a
      in if n = 0 then None
         else if odd n then Some (s ! (n div 2))
         else Some ((s ! (n div 2 - 1) + s ! (n div 2)) / 2))"

definition arange :: "real \<Rightarrow> real \<Rightarrow> real \<Rightarrow> error + real list" where
  "arange a b st =
     (if st = 0 then Inl ValueError
      else Inr (map (\<lambda>i. a + real i * st) [0..<nat \<lceil>(b - a) / st\<rceil>]))"

definition irregular_warning :: string where
  "irregular_warning =
     ''Irregular sampling in depth is not supported. Interpolating to regular basis.''"

text \<open>
  The first part of \<open>from_lasio_curve\<close>, "see if we have uneven sampling". It yields the
  warnings issued and the values of \<open>data\<close>, \<open>basis\<close>, \<open>start\<close>, \<open>stop\<close> and \<open>step\<close>
  afterwards. With fewer than two depths there is no difference: the sampling counts as
  even, the median step is NaN, and the code goes on to build a curve with that step,
  which is \<open>NotANumber\<close> here.
\<close>

definition uneven_sampling ::
  "lasio_curve \<Rightarrow> real list option \<Rightarrow> real list option \<Rightarrow> real option \<Rightarrow> real option \<Rightarrow> real
    \<Rightarrow> error + string list \<times> real list \<times> real list option \<times> real option \<times> real option \<times> real"
  where
  "uneven_sampling curve depth basis_arg start_arg stop_arg step_arg =
     (case depth of
        None \<Rightarrow> Inr ([], lc_data curve, basis_arg, start_arg, stop_arg, step_arg)
      | Some dep \<Rightarrow>
          let d = np_diff dep in
          if \<not> allclose (map (\<lambda>x. x - mean d) d) (replicate (length d) 0)
          then
            (case median d of None \<Rightarrow> Inl NotANumber | Some step1 \<Rightarrow>
             case getitem dep 0 of Inl e \<Rightarrow> Inl e | Inr start1 \<Rightarrow>
             case getitem dep (- 1) of Inl e \<Rightarrow> Inl e | Inr dl \<Rightarrow>
             let stop1 = dl + 1 / 100000 in
             case arange start1 stop1 step1 of Inl e \<Rightarrow> Inl e | Inr basis1 \<Rightarrow>
             case np_interp basis1 dep (lc_data curve) of Inl e \<Rightarrow> Inl e | Inr data1 \<Rightarrow>
             Inr ([irregular_warning], data1, Some basis1, Some start1, Some stop1, step1))
          else
            (case getitem dep 0 of Inl e \<Rightarrow> Inl e | Inr start1 \<Rightarrow>
             case median d of None \<Rightarrow> Inl NotANumber | Some step1 \<Rightarrow>
             Inr ([], lc_data curve, basis_arg, Some start1, stop_arg, step1)))"

text \<open>
  The second part, "carry on with easier situations": the start and step from a basis
  where no start is known, and the step from the stop where the step is 0 (a curve of one
  sample divides by zero there).
\<close>

definition start_and_step ::
  "lasio_curve \<Rightarrow> real list option \<Rightarrow> real option \<Rightarrow> real option \<Rightarrow> real \<Rightarrow> error + real \<times> real"
  where
  "start_and_step curve basis_arg start_arg stop_arg step_arg =
     (case (case start_arg of
              Some s \<Rightarrow> Inr (s, step_arg)
            | None \<Rightarrow>
                (case basis_arg of
                   None \<Rightarrow> Inl CurveError
                 | Some bs \<Rightarrow>
                     (case getitem bs 0 of Inl e \<Rightarrow> Inl e | Inr s \<Rightarrow>
                      case getitem bs 1 of Inl e \<Rightarrow> Inl e | Inr b1 \<Rightarrow>
                      case getitem bs 0 of Inl e \<Rightarrow> Inl e | Inr b0 \<Rightarrow> Inr (s, b1 - b0)))) of
        Inl e \<Rightarrow> Inl e
      | Inr (s, st) \<Rightarrow>
          if st = 0
          then (case stop_arg of
                  None \<Rightarrow> Inl CurveError
                | Some sp \<Rightarrow>
                    if int (length (lc_data curve)) - 1 = 0 then Inl ZeroDivisionError
                    else Inr (s, (sp - s) / real_of_int (int (length (lc_data curve)) - 1)))
          else Inr (s, st))"

text \<open>\<open>Curve.from_lasio_curve\<close>: the warnings issued and the curve built.\<close>

definition from_lasio_curve ::
  "lasio_curve \<Rightarrow> real list option \<Rightarrow> real list option \<Rightarrow> real option \<Rightarrow> real option \<Rightarrow> real
    \<Rightarrow> error + string list \<times> real curve" where
  "from_lasio_curve curve depth basis_arg start_arg stop_arg step_arg =
     (case uneven_sampling curve depth basis_arg start_arg stop_arg step_arg of
        Inl e \<Rightarrow> Inl e
      | Inr (warnings, data, basis1, start1, stop1, step1) \<Rightarrow>
          (case start_and_step curve basis1 start1 stop1 step1 of
             Inl e \<Rightarrow> Inl e
           | Inr (s, st) \<Rightarrow>
               Inr (warnings,
                    \<lparr>samples = data, start = s, step = st, mnemonic = Some (lc_mnemonic curve)\<rparr>)))"

subsection \<open>Example data\<close>

text \<open>A small curve and two boolean tests, used to evaluate the statements below.\<close>

definition gr :: "real curve" where
  "gr = \<lparr>samples = [1, 2, 3], start = 0, step = 1, mnemonic = Some ''GR''\<rparr>"

definition t_pass :: "(real, bool) test" where
  "t_pass = Test ''all_positive'' (\<lambda>c. \<forall>x \<in> set (samples c). 0 < x)"

definition t_fail :: "(real, bool) test" where
  "t_fail = Test ''all_below_two'' (\<lambda>c. \<forall>x \<in> set (samples c). x < 2)"

text \<open>Two tests with one name, as two lambda expressions have.\<close>

definition t_lam_pass :: "(real, bool) test" where
  "t_lam_pass = Test ''<lambda>'' (\<lambda>c. samples c \<noteq> [])"

definition t_lam_fail :: "(real, bool) test" where
  "t_lam_fail = Test ''<lambda>'' (\<lambda>c. samples c = [])"

definition c5 :: "real curve" where
  "c5 = \<lparr>samples = [1, 2, 3, 4, 5], start = 0, step = 1, mnemonic = Some ''GR''\<rparr>"

definition cz :: "real curve" where
  "cz = \<lparr>samples = [1 / 2, 3 / 2, 5 / 2, 1 / 5], start = 0, step = 1, mnemonic = Some ''GR''\<rparr>"



definition las_irregular :: lasio_curve where
  "las_irregular = \<lparr>lc_data = [10, 20, 30, 50, 60], lc_unit = ''API'', lc_mnemonic = ''GR''\<rparr>"

definition las_repeated :: lasio_curve where
  "las_repeated = \<lparr>lc_data = [1, 2, 3, 4], lc_unit = ''API'', lc_mnemonic = ''GR''\<rparr>"

section \<open>Verified properties\<close>

subsection \<open>Basis geometry\<close>

lemma linspace_length:
  "0 \<le> num \<Longrightarrow> \<exists>ys. linspace a b num = Inr ys \<and> length ys = nat num"
  by (simp add: linspace_def Let_def)

lemma linspace_nth:
  assumes "linspace a b (int n) = Inr ys" and "i < n"
  shows "ys ! i = (if 1 < n \<and> i = n - 1 then b
                   else if 1 < n then real i * ((b - a) / real (n - 1)) + a
                   else a)"
  using assms by (auto simp: linspace_def Let_def nth_list_update split: if_splits)

lemma basis_points:
  assumes "samples c \<noteq> []"
  shows "\<exists>b. basis c = Inr b \<and> length b = length (samples c)
            \<and> b ! 0 = start c \<and> b ! (length (samples c) - 1) = stop c"
proof -
  let ?n = "length (samples c)"
  obtain b where b: "linspace (start c) (stop c) (int ?n) = Inr b" and len: "length b = ?n"
    using linspace_length [of "int ?n" "start c" "stop c"] by auto
  have pos: "0 < ?n" and pred: "?n - 1 < ?n"
    using assms by simp_all
  have first: "b ! 0 = start c"
    using linspace_nth [OF b pos] by (simp add: stop_def)
  have lst: "b ! (?n - 1) = stop c"
  proof (cases "?n = 1")
    case True
    then show ?thesis
      using linspace_nth [OF b pos] by (simp add: stop_def)
  next
    case False
    then have "1 < ?n" using pos by linarith
    then show ?thesis using linspace_nth [OF b pred] by simp
  qed
  show ?thesis
    unfolding basis_def using b len first lst by simp
qed

text \<open>
  Claim C2. For a curve with \<open>N \<ge> 1\<close> samples, start \<open>s\<close> and step \<open>p\<close>: the basis
  is computed without error, it has length \<open>N\<close>, \<open>basis[0] = s\<close>, and
  \<open>basis[N-1] = basis[-1] = stop = s + (N-1) * p\<close>.
\<close>

theorem basis_endpoints_and_length:
  assumes "1 \<le> length (samples c)"
  shows "\<exists>b. basis c = Inr b
            \<and> length b = length (samples c)
            \<and> getitem b 0 = Inr (start c)
            \<and> getitem b (int (length (samples c)) - 1) = Inr (stop c)
            \<and> getitem b (- 1) = Inr (stop c)
            \<and> stop c = start c + real (length (samples c) - 1) * step c"
proof -
  let ?n = "length (samples c)"
  have ne: "samples c \<noteq> []"
    using assms by auto
  from basis_points [OF ne] obtain b where b: "basis c = Inr b" and len: "length b = ?n"
    and first: "b ! 0 = start c" and lst: "b ! (?n - 1) = stop c"
    by blast
  have stop_eq: "stop c = start c + real (?n - 1) * step c"
    using assms by (simp add: stop_def)
  have g0: "getitem b 0 = Inr (start c)"
    using ne len first by (simp add: getitem_def)
  have g1: "getitem b (int ?n - 1) = Inr (stop c)"
    using ne assms len lst by (simp add: getitem_def nat_diff_distrib')
  have g2: "getitem b (- 1) = Inr (stop c)"
    using ne assms len lst by (simp add: getitem_def nat_diff_distrib')
  show ?thesis
    using b len g0 g1 g2 stop_eq by simp
qed

theorem basis_endpoints_and_length_witness:
  "1 \<le> length (samples \<lparr>samples = [1, 2, 3, 4, 5 :: real], start = 0, step = 1, mnemonic = None\<rparr>)
   \<and> basis \<lparr>samples = [1, 2, 3, 4, 5 :: real], start = 0, step = 1, mnemonic = None\<rparr>
       = Inr [0, 1, 2, 3, 4]
   \<and> stop \<lparr>samples = [1, 2, 3, 4, 5 :: real], start = 0, step = 1, mnemonic = None\<rparr> = 4"
proof -
  let ?c = "\<lparr>samples = [1, 2, 3, 4, 5 :: real], start = 0, step = 1, mnemonic = None\<rparr>"
  have h: "1 \<le> length (samples ?c)" by simp
  have s: "stop ?c = 4" by (simp add: stop_def)
  have u: "[0..<5] = [0, 1, 2, 3, 4]" by (simp add: upt_rec)
  have b: "basis ?c = Inr [0, 1, 2, 3, 4]"
    by (simp add: basis_def s linspace_def Let_def u)
  from basis_endpoints_and_length [OF h] show ?thesis using h b s by simp
qed

subsection \<open>Quality tests\<close>

lemma foldl_update_nonempty:
  "d \<noteq> [] \<or> ts \<noteq> [] \<Longrightarrow> foldl (\<lambda>d t. AList.update (f t) (g t) d) d ts \<noteq> []"
  by (induction ts arbitrary: d) auto

lemma foldl_update_values:
  "snd ` set (foldl (\<lambda>d t. AList.update (f t) (g t) d) d ts) \<subseteq> snd ` set d \<union> g ` set ts"
proof (induction ts arbitrary: d)
  case Nil then show ?case by simp
next
  case (Cons t ts)
  have "set (AList.update (f t) (g t) d) \<subseteq> insert (f t, g t) (set d)"
    by (induction d) auto
  then have "snd ` set (AList.update (f t) (g t) d) \<subseteq> insert (g t) (snd ` set d)"
    by force
  with Cons.IH [of "AList.update (f t) (g t) d"] show ?case by auto
qed

lemma update_fresh: "k \<notin> fst ` set d \<Longrightarrow> AList.update k v d = d @ [(k, v)]"
  by (induction d) auto

lemma foldl_update_distinct:
  "distinct (map f ts) \<Longrightarrow> fst ` set d \<inter> f ` set ts = {} \<Longrightarrow>
   foldl (\<lambda>d t. AList.update (f t) (g t) d) d ts = d @ map (\<lambda>t. (f t, g t)) ts"
proof (induction ts arbitrary: d)
  case Nil then show ?case by simp
next
  case (Cons t ts)
  have fresh: "f t \<notin> fst ` set d" using Cons.prems by auto
  have "fst ` set (d @ [(f t, g t)]) \<inter> f ` set ts = {}"
    using Cons.prems by auto
  with Cons.IH [of "d @ [(f t, g t)]"] Cons.prems show ?case
    by (simp add: update_fresh [OF fresh])
qed

lemma run_tests_Nil: "run_tests c [] = []"
  by (simp add: run_tests_def)

lemma quality_resolved: "quality c tests alias = run_tests c (resolved c tests alias)"
  by (simp add: quality_def resolved_def gathered_def Let_def)

lemma quality_score_eq:
  "quality_score c tests alias =
     (if quality c tests alias = [] then - 1
      else real (length (filter snd (quality c tests alias))) / real (length (quality c tests alias)))"
proof -
  have "sum_list (map of_bool (map snd q)) = int (length (filter snd q))" for q :: "(string \<times> bool) list"
    by (induction q) auto
  then show ?thesis by (simp add: quality_score_def Let_def)
qed

lemma quality_score_none_resolved: "resolved c tests alias = [] \<Longrightarrow> quality_score c tests alias = - 1"
  by (simp add: quality_score_eq quality_resolved run_tests_Nil)

lemma run_tests_nonempty: "ts \<noteq> [] \<Longrightarrow> run_tests c ts \<noteq> []"
  unfolding run_tests_def using foldl_update_nonempty [of "[]" ts] by simp

lemma run_tests_values: "snd ` set (run_tests c ts) \<subseteq> (\<lambda>t. test_call t c) ` set ts"
  unfolding run_tests_def
  using foldl_update_values [of test_name "\<lambda>t. test_call t c" "[]" ts] by simp

lemma run_tests_distinct:
  "distinct (map test_name ts) \<Longrightarrow> run_tests c ts = map (\<lambda>t. (test_name t, test_call t c)) ts"
  unfolding run_tests_def
  using foldl_update_distinct [of test_name ts "[]" "\<lambda>t. test_call t c"] by simp

lemma quality_nonempty: "resolved c tests alias \<noteq> [] \<Longrightarrow> quality c tests alias \<noteq> []"
  unfolding quality_resolved by (rule run_tests_nonempty)

lemma quality_values:
  "p \<in> set (quality c tests alias) \<Longrightarrow> \<exists>t \<in> set (resolved c tests alias). snd p = test_call t c"
  using run_tests_values [of c "resolved c tests alias"] unfolding quality_resolved by blast

lemma quality_score_all_pass:
  assumes "resolved c tests alias \<noteq> []" and "\<forall>t \<in> set (resolved c tests alias). test_call t c"
  shows "quality_score c tests alias = 1"
proof -
  have "snd p" if "p \<in> set (quality c tests alias)" for p
    using quality_values [OF that] assms(2) by auto
  then have "filter snd (quality c tests alias) = quality c tests alias" by simp
  then show ?thesis using quality_nonempty [OF assms(1)] by (simp add: quality_score_eq)
qed

lemma quality_score_all_fail:
  assumes "resolved c tests alias \<noteq> []" and "\<forall>t \<in> set (resolved c tests alias). \<not> test_call t c"
  shows "quality_score c tests alias = 0"
proof -
  have "\<not> snd p" if "p \<in> set (quality c tests alias)" for p
    using quality_values [OF that] assms(2) by auto
  then have "filter snd (quality c tests alias) = []" by simp
  then show ?thesis using quality_nonempty [OF assms(1)] by (simp add: quality_score_eq)
qed

lemma quality_score_rate:
  assumes "resolved c tests alias \<noteq> []"
  shows "quality_score c tests alias =
           real (length (filter snd (quality c tests alias))) / real (length (quality c tests alias))
         \<and> 0 \<le> quality_score c tests alias \<and> quality_score c tests alias \<le> 1"
proof -
  have "length (filter snd (quality c tests alias)) \<le> length (quality c tests alias)" by simp
  moreover have "0 < length (quality c tests alias)" using quality_nonempty [OF assms] by simp
  ultimately show ?thesis using quality_nonempty [OF assms] by (simp add: quality_score_eq)
qed

lemma quality_score_rate_distinct:
  assumes "resolved c tests alias \<noteq> []" and d: "distinct (map test_name (resolved c tests alias))"
  shows "quality_score c tests alias =
              real (length (filter (\<lambda>t. test_call t c) (resolved c tests alias)))
              / real (length (resolved c tests alias))"
proof -
  have m: "quality c tests alias = map (\<lambda>t. (test_name t, test_call t c)) (resolved c tests alias)"
    unfolding quality_resolved using d by (rule run_tests_distinct)
  have "length (filter snd (map (\<lambda>t. (test_name t, test_call t c)) ts))
            = length (filter (\<lambda>t. test_call t c) ts)" for ts :: "('a, bool) test list"
    by (induction ts) auto
  then show ?thesis using quality_score_rate [OF assms(1)] m by simp
qed

lemma map_of_foldl_update:
  "map_of (foldl (\<lambda>d t. AList.update (f t) (g t) d) d ts) n =
     (if n \<in> f ` set ts then Some (g (last (filter (\<lambda>t. f t = n) ts))) else map_of d n)"
proof (induction ts arbitrary: d)
  case Nil
  then show ?case by simp
next
  case (Cons t ts)
  show ?case
    by (auto simp: Cons.IH AList.update_conv' filter_empty_conv)
qed

lemma distinct_foldl_update:
  "distinct (map fst d) \<Longrightarrow> distinct (map fst (foldl (\<lambda>d t. AList.update (f t) (g t) d) d ts))"
  by (induction ts arbitrary: d) (simp_all add: AList.distinct_update)

lemma keys_foldl_update:
  "fst ` set (foldl (\<lambda>d t. AList.update (f t) (g t) d) d ts) = fst ` set d \<union> f ` set ts"
  by (induction ts arbitrary: d) (auto simp: AList.dom_update)

lemma run_tests_lookup:
  "map_of (run_tests c ts) n =
     (if n \<in> test_name ` set ts then Some (test_call (last_named ts n) c) else None)"
  unfolding run_tests_def last_named_def
  using map_of_foldl_update [of test_name "\<lambda>t. test_call t c" "[]" ts n] by simp

lemma run_tests_distinct_keys: "distinct (map fst (run_tests c ts))"
  unfolding run_tests_def by (rule distinct_foldl_update) simp

lemma run_tests_keys: "fst ` set (run_tests c ts) = test_name ` set ts"
  unfolding run_tests_def using keys_foldl_update [of test_name "\<lambda>t. test_call t c" "[]" ts] by simp

lemma run_tests_count:
  "length (run_tests c ts) = card (test_name ` set ts)"
proof -
  have "length (run_tests c ts) = length (map fst (run_tests c ts))" by simp
  also have "\<dots> = card (set (map fst (run_tests c ts)))"
    using run_tests_distinct_keys [of c ts] by (simp only: distinct_card)
  also have "\<dots> = card (test_name ` set ts)"
    using run_tests_keys [of c ts] by simp
  finally show ?thesis .
qed

lemma run_tests_passed:
  fixes ts :: "('v, bool) test list"
  shows "length (filter snd (run_tests c ts)) =
           card {n \<in> test_name ` set ts. test_call (last_named ts n) c}"
proof -
  let ?q = "run_tests c ts"
  have dq: "distinct (map fst ?q)" by (rule run_tests_distinct_keys)
  have df: "distinct (map fst (filter snd ?q))"
    using dq by (simp add: distinct_map_filter)
  have "set (map fst (filter snd ?q)) = {n \<in> test_name ` set ts. test_call (last_named ts n) c}"
  proof (intro set_eqI iffI)
    fix n assume "n \<in> set (map fst (filter snd ?q))"
    then have "(n, True) \<in> set ?q" by auto
    then have "map_of ?q n = Some True" using dq by simp
    then show "n \<in> {n \<in> test_name ` set ts. test_call (last_named ts n) c}"
      by (auto simp: run_tests_lookup split: if_splits)
  next
    fix n assume "n \<in> {n \<in> test_name ` set ts. test_call (last_named ts n) c}"
    then have "map_of ?q n = Some True" by (simp add: run_tests_lookup)
    then have "(n, True) \<in> set ?q" by (rule map_of_SomeD)
    then show "n \<in> set (map fst (filter snd ?q))" by force
  qed
  then have "card {n \<in> test_name ` set ts. test_call (last_named ts n) c}
               = card (set (map fst (filter snd ?q)))" by simp
  also have "\<dots> = length (map fst (filter snd ?q))" using df by (rule distinct_card)
  finally show ?thesis by simp
qed

lemma quality_score_by_name:
  assumes "resolved c tests alias \<noteq> []"
  shows "quality_score c tests alias =
           real (card {n \<in> test_name ` set (resolved c tests alias).
                         test_call (last_named (resolved c tests alias) n) c})
           / real (card (test_name ` set (resolved c tests alias)))"
  using quality_score_rate [OF assms]
  by (simp add: quality_resolved run_tests_passed run_tests_count)

text \<open>
  Claim C4, as amended. For boolean tests, \<open>quality_score\<close> is \<open>-1\<close> when no test is
  resolved, \<open>1\<close> when tests are resolved and each returns true, \<open>0\<close> when tests are
  resolved and each returns false, and otherwise the pass rate over the distinct names of
  the resolved tests, each name counted once with the result of the last resolved test of
  that name; it lies in \<open>[0, 1]\<close> and is the share of passing tests when the resolved
  tests have distinct names.
\<close>

theorem quality_score_values:
  "(resolved c tests alias = [] \<longrightarrow> quality_score c tests alias = - 1)
   \<and> (resolved c tests alias \<noteq> [] \<and> (\<forall>t \<in> set (resolved c tests alias). test_call t c)
        \<longrightarrow> quality_score c tests alias = 1)
   \<and> (resolved c tests alias \<noteq> [] \<and> (\<forall>t \<in> set (resolved c tests alias). \<not> test_call t c)
        \<longrightarrow> quality_score c tests alias = 0)
   \<and> (resolved c tests alias \<noteq> []
        \<longrightarrow> quality_score c tests alias =
              real (card {n \<in> test_name ` set (resolved c tests alias).
                            test_call (last_named (resolved c tests alias) n) c})
              / real (card (test_name ` set (resolved c tests alias)))
            \<and> 0 \<le> quality_score c tests alias \<and> quality_score c tests alias \<le> 1)
   \<and> (resolved c tests alias \<noteq> [] \<and> distinct (map test_name (resolved c tests alias))
        \<longrightarrow> quality_score c tests alias =
              real (length (filter (\<lambda>t. test_call t c) (resolved c tests alias)))
              / real (length (resolved c tests alias)))"
proof -
  have 1: "resolved c tests alias = [] \<longrightarrow> quality_score c tests alias = - 1"
    using quality_score_none_resolved [of c tests "alias"] by simp
  have 2: "resolved c tests alias \<noteq> [] \<and> (\<forall>t \<in> set (resolved c tests alias). test_call t c)
        \<longrightarrow> quality_score c tests alias = 1"
    using quality_score_all_pass [of c tests "alias"] by simp
  have 3: "resolved c tests alias \<noteq> [] \<and> (\<forall>t \<in> set (resolved c tests alias). \<not> test_call t c)
        \<longrightarrow> quality_score c tests alias = 0"
    using quality_score_all_fail [of c tests "alias"] by simp
  have 4: "resolved c tests alias \<noteq> []
        \<longrightarrow> quality_score c tests alias =
              real (card {n \<in> test_name ` set (resolved c tests alias).
                            test_call (last_named (resolved c tests alias) n) c})
              / real (card (test_name ` set (resolved c tests alias)))
            \<and> 0 \<le> quality_score c tests alias \<and> quality_score c tests alias \<le> 1"
    using quality_score_rate [of c tests "alias"] quality_score_by_name [of c tests "alias"]
    by blast
  have 5: "resolved c tests alias \<noteq> [] \<and> distinct (map test_name (resolved c tests alias))
        \<longrightarrow> quality_score c tests alias =
              real (length (filter (\<lambda>t. test_call t c) (resolved c tests alias)))
              / real (length (resolved c tests alias))"
    using quality_score_rate_distinct [of c tests "alias"] by simp
  show ?thesis
    by (rule conjI [OF 1 conjI [OF 2 conjI [OF 3 conjI [OF 4 5]]]])
qed

text \<open>
  The claim as stated fails: of two resolved tests with the same name, one passing and one
  failing, the result mapping keeps the later one only, and the score is 0 or 1 where the
  pass rate of the resolved tests is one half.
\<close>

theorem quality_score_values_counterexample:
  "resolved gr [''each'' \<mapsto> [Some t_lam_pass, Some t_lam_fail]] None = [t_lam_pass, t_lam_fail]
   \<and> test_call t_lam_pass gr \<and> \<not> test_call t_lam_fail gr
   \<and> quality_score gr [''each'' \<mapsto> [Some t_lam_pass, Some t_lam_fail]] None = 0
   \<and> quality_score gr [''each'' \<mapsto> [Some t_lam_fail, Some t_lam_pass]] None = 1"
proof -
  have r: "resolved gr [''each'' \<mapsto> [Some t_lam_pass, Some t_lam_fail]] None = [t_lam_pass, t_lam_fail]"
    by (simp add: resolved_def gathered_def dict_get_def dict_get_or_def get_alias_def gr_def)
  have r': "resolved gr [''each'' \<mapsto> [Some t_lam_fail, Some t_lam_pass]] None = [t_lam_fail, t_lam_pass]"
    by (simp add: resolved_def gathered_def dict_get_def dict_get_or_def get_alias_def gr_def)
  have p: "test_call t_lam_pass gr" and f: "\<not> test_call t_lam_fail gr"
    by (simp_all add: t_lam_pass_def t_lam_fail_def gr_def)
  have q: "quality gr [''each'' \<mapsto> [Some t_lam_pass, Some t_lam_fail]] None = [(''<lambda>'', False)]"
    unfolding quality_resolved r by (simp add: run_tests_def t_lam_pass_def t_lam_fail_def gr_def)
  have q': "quality gr [''each'' \<mapsto> [Some t_lam_fail, Some t_lam_pass]] None = [(''<lambda>'', True)]"
    unfolding quality_resolved r' by (simp add: run_tests_def t_lam_pass_def t_lam_fail_def gr_def)
  have s: "quality_score gr [''each'' \<mapsto> [Some t_lam_pass, Some t_lam_fail]] None = 0"
    by (simp add: quality_score_def q)
  have s': "quality_score gr [''each'' \<mapsto> [Some t_lam_fail, Some t_lam_pass]] None = 1"
    by (simp add: quality_score_def q')
  show ?thesis using r p f s s' by simp
qed

theorem quality_score_values_witness:
  "quality_score gr Map.empty None = - 1
   \<and> quality_score gr [''each'' \<mapsto> [Some t_pass, None]] None = 1
   \<and> quality_score gr [''GR'' \<mapsto> [Some t_fail]] None = 0
   \<and> quality_score gr [''each'' \<mapsto> [Some t_pass, None], ''GR'' \<mapsto> [Some t_fail]] None = 1 / 2"
proof -
  have r0: "resolved gr (Map.empty :: (real, bool) tests) None = []"
    by (simp add: resolved_def gathered_def dict_get_def dict_get_or_def get_alias_def gr_def)
  have r1: "resolved gr [''each'' \<mapsto> [Some t_pass, None]] None = [t_pass]"
    by (simp add: resolved_def gathered_def dict_get_def dict_get_or_def get_alias_def gr_def)
  have r2: "resolved gr [''GR'' \<mapsto> [Some t_fail]] None = [t_fail]"
    by (simp add: resolved_def gathered_def dict_get_def dict_get_or_def get_alias_def gr_def)
  have r3: "resolved gr [''each'' \<mapsto> [Some t_pass, None], ''GR'' \<mapsto> [Some t_fail]] None
              = [t_pass, t_fail]"
    by (simp add: resolved_def gathered_def dict_get_def dict_get_or_def get_alias_def gr_def)
  have p: "test_call t_pass gr" and f: "\<not> test_call t_fail gr"
    and n: "test_name t_pass \<noteq> test_name t_fail"
    by (simp_all add: t_pass_def t_fail_def gr_def)
  have a: "quality_score gr Map.empty None = - 1"
    using quality_score_values [of gr Map.empty None] r0 by simp
  have b: "quality_score gr [''each'' \<mapsto> [Some t_pass, None]] None = 1"
    using quality_score_values [of gr "[''each'' \<mapsto> [Some t_pass, None]]" None] r1 p by simp
  have c: "quality_score gr [''GR'' \<mapsto> [Some t_fail]] None = 0"
    using quality_score_values [of gr "[''GR'' \<mapsto> [Some t_fail]]" None] r2 f by simp
  have h: "resolved gr [''each'' \<mapsto> [Some t_pass, None], ''GR'' \<mapsto> [Some t_fail]] None \<noteq> []
           \<and> distinct (map test_name
                 (resolved gr [''each'' \<mapsto> [Some t_pass, None], ''GR'' \<mapsto> [Some t_fail]] None))"
    using n by (simp add: r3)
  have "quality_score gr [''each'' \<mapsto> [Some t_pass, None], ''GR'' \<mapsto> [Some t_fail]] None
          = real (length (filter (\<lambda>t. test_call t gr) [t_pass, t_fail])) / real (length [t_pass, t_fail])"
    using quality_score_values
      [of gr "[''each'' \<mapsto> [Some t_pass, None], ''GR'' \<mapsto> [Some t_fail]]" None] h
    unfolding r3 by blast
  then have d: "quality_score gr [''each'' \<mapsto> [Some t_pass, None], ''GR'' \<mapsto> [Some t_fail]] None = 1 / 2"
    using p f by simp
  show ?thesis using a b c d by simp
qed

text \<open>
  Claim C5. When the test mapping holds the curve's mnemonic with an empty list,
  \<open>quality\<close> returns the empty result mapping, whatever the wildcard keys and the alias
  groups hold, while \<open>qflag\<close> suppresses nothing: it returns the results of the tests
  under the wildcard keys and under the alias groups of the mnemonic.
\<close>

theorem empty_override_quality_not_qflag:
  assumes "mnemonic c = Some m" and "tests m = Some []"
  shows "quality c tests alias = []
         \<and> qflag c tests alias =
             run_tests c (filter_None
               (dict_get_or tests (Some ''each'') [] @ dict_get_or tests (Some ''Each'') []
                @ dict_get_or tests (Some ''EACH'') []
                @ flatten_list (map tests (get_alias c alias))))"
  using assms
  by (simp add: quality_def qflag_def Let_def dict_get_def dict_get_or_def run_tests_def)

theorem empty_override_quality_not_qflag_witness:
  "mnemonic gr = Some ''GR''
   \<and> [''GR'' \<mapsto> [], ''each'' \<mapsto> [Some t_pass], ''Gamma'' \<mapsto> [Some t_fail]] ''GR'' = Some []
   \<and> quality gr [''GR'' \<mapsto> [], ''each'' \<mapsto> [Some t_pass], ''Gamma'' \<mapsto> [Some t_fail]]
        (Some [(''Gamma'', [''GR'', ''GAM''])]) = []
   \<and> qflag gr [''GR'' \<mapsto> [], ''each'' \<mapsto> [Some t_pass], ''Gamma'' \<mapsto> [Some t_fail]]
        (Some [(''Gamma'', [''GR'', ''GAM''])])
      = [(''all_positive'', True), (''all_below_two'', False)]"
proof -
  let ?tests = "[''GR'' \<mapsto> [], ''each'' \<mapsto> [Some t_pass], ''Gamma'' \<mapsto> [Some t_fail]]"
  let ?groups = "Some [(''Gamma'', [''GR'', ''GAM''])]"
  have m: "mnemonic gr = Some ''GR''" by (simp add: gr_def)
  have t: "?tests ''GR'' = Some []" by simp
  have al: "get_alias gr ?groups = [''Gamma'']"
    by (simp add: get_alias_def gr_def)
  have r: "run_tests gr [t_pass, t_fail] = [(''all_positive'', True), (''all_below_two'', False)]"
    by (simp add: run_tests_def t_pass_def t_fail_def gr_def)
  from empty_override_quality_not_qflag [of gr "''GR''" ?tests ?groups]
  show ?thesis using m t al r by (simp add: dict_get_or_def dict_get_def)
qed

text \<open>
  Claim C10. \<open>qflag\<close> and \<open>qflags\<close> return equal result mappings for every curve, test
  mapping and alias mapping: both run the entries gathered under the wildcard keys, the
  mnemonic and then the alias groups, with the \<open>None\<close> entries filtered out and without
  the empty-override suppression.
\<close>

theorem qflag_qflags_equivalent:
  "qflag c tests alias = qflags c tests alias
   \<and> qflags c tests alias =
       run_tests c (filter_None
         (dict_get_or tests (Some ''each'') [] @ dict_get_or tests (Some ''Each'') []
          @ dict_get_or tests (Some ''EACH'') []
          @ dict_get_or tests (mnemonic c) []
          @ flatten_list (map tests (get_alias c alias))))"
  by (simp add: qflag_def qflags_def Let_def)

theorem qflag_qflags_equivalent_witness:
  "qflag gr [''GR'' \<mapsto> [], ''each'' \<mapsto> [Some t_pass], ''Gamma'' \<mapsto> [Some t_fail]]
        (Some [(''Gamma'', [''GR'', ''GAM''])])
   = qflags gr [''GR'' \<mapsto> [], ''each'' \<mapsto> [Some t_pass], ''Gamma'' \<mapsto> [Some t_fail]]
        (Some [(''Gamma'', [''GR'', ''GAM''])])"
  using qflag_qflags_equivalent
    [of gr "[''GR'' \<mapsto> [], ''each'' \<mapsto> [Some t_pass], ''Gamma'' \<mapsto> [Some t_fail]]"
        "Some [(''Gamma'', [''GR'', ''GAM''])]"]
  by simp

subsection \<open>Blocking\<close>

lemma searchsorted_le: "searchsorted a v right \<le> length a"
  by (simp add: searchsorted_def length_takeWhile_le)

lemma digitize1_le: "digitize1 bins right v \<le> length bins"
  using searchsorted_le [of bins v right] by (simp add: digitize1_def)

lemma block_given_cutoffs:
  "block c (Some (Seq bs)) None n right None =
     (if monotonicity bs = 0 then Inl ValueError
      else Inr (c\<lparr>samples := map (\<lambda>v. real (digitize1 bs right v)) (samples c)\<rparr>))"
  by (simp add: block_def block_cutoffs_def digitize_def comp_def)

text \<open>
  Claim C6, as amended. Blocking the zone-index curve again with the same cutoff sequence
  gives the same zone assignment, provided the cutoffs put every zone index
  \<open>0, ..., k\<close> (\<open>k\<close> the number of cutoffs) into the zone of that index, as the cutoffs
  \<open>[1, ..., k]\<close> do with \<open>right = False\<close>.
\<close>

theorem block_twice_same_zones:
  assumes "block c (Some (Seq bs)) None n right None = Inr c1"
    and "\<forall>i \<le> length bs. digitize1 bs right (real i) = i"
  shows "block c1 (Some (Seq bs)) None n right None = Inr c1"
proof -
  have mono: "monotonicity bs \<noteq> 0"
    using assms(1) by (auto simp: block_given_cutoffs split: if_splits)
  have c1: "c1 = c\<lparr>samples := map (\<lambda>v. real (digitize1 bs right v)) (samples c)\<rparr>"
    using assms(1) mono by (simp add: block_given_cutoffs)
  have fixd: "digitize1 bs right (real (digitize1 bs right v)) = digitize1 bs right v" for v
    using assms(2) digitize1_le [of bs right v] by blast
  have "map (\<lambda>v. real (digitize1 bs right v)) (samples c1) = samples c1"
    unfolding c1 by (simp add: fixd)
  then have "c1\<lparr>samples := map (\<lambda>v. real (digitize1 bs right v)) (samples c1)\<rparr> = c1"
    by simp
  then show ?thesis using mono by (simp add: block_given_cutoffs)
qed

text \<open>
  The claim as stated fails: the samples \<open>[1, 2, 3, 4, 5]\<close> with the cutoff \<open>[3]\<close> get the
  zones \<open>[0, 0, 1, 1, 1]\<close>, and these zone indices, all below 3, get \<open>[0, 0, 0, 0, 0]\<close>.
\<close>

theorem block_twice_counterexample:
  "block c5 (Some (Seq [3])) None 0 False None = Inr (c5\<lparr>samples := [0, 0, 1, 1, 1]\<rparr>)
   \<and> block (c5\<lparr>samples := [0, 0, 1, 1, 1]\<rparr>) (Some (Seq [3])) None 0 False None
       = Inr (c5\<lparr>samples := [0, 0, 0, 0, 0]\<rparr>)
   \<and> c5\<lparr>samples := [0, 0, 0, 0, 0]\<rparr> \<noteq> c5\<lparr>samples := [0, 0, 1, 1, 1]\<rparr>"
  by (simp add: block_given_cutoffs digitize1_def monotonicity_def searchsorted_def c5_def)

theorem block_twice_same_zones_witness:
  "block cz (Some (Seq [1, 2])) None 0 False None = Inr (cz\<lparr>samples := [0, 1, 2, 0]\<rparr>)
   \<and> block (cz\<lparr>samples := [0, 1, 2, 0]\<rparr>) (Some (Seq [1, 2])) None 0 False None
       = Inr (cz\<lparr>samples := [0, 1, 2, 0]\<rparr>)"
proof -
  have a: "block cz (Some (Seq [1, 2])) None 0 False None = Inr (cz\<lparr>samples := [0, 1, 2, 0]\<rparr>)"
    by (simp add: block_given_cutoffs digitize1_def monotonicity_def searchsorted_def cz_def)
  have "digitize1 [1, 2] False (real i) = i" if "i \<le> 2" for i
  proof -
    from that consider "i = 0" | "i = 1" | "i = 2" by linarith
    then show ?thesis
      by cases (simp_all add: digitize1_def monotonicity_def searchsorted_def)
  qed
  then have h: "\<forall>i \<le> length [1, 2 :: real]. digitize1 [1, 2] False (real i) = i" by simp
  from block_twice_same_zones [OF a h] a show ?thesis by simp
qed

lemma linspace_butlast:
  assumes "0 < m"
  shows "linspace a b (int m + 1) = Inr l \<Longrightarrow>
         butlast l = map (\<lambda>i. real i * ((b - a) / real m) + a) [0..<m]"
proof -
  assume l: "linspace a b (int m + 1) = Inr l"
  have n: "nat (int m + 1) = Suc m" by simp
  have "l = (map (\<lambda>i. real i * ((b - a) / real m) + a) [0..<Suc m]) [m := b]"
    using l assms unfolding linspace_def Let_def n by (simp del: upt_Suc)
  then show ?thesis by (simp add: butlast_list_update)
qed

lemma sorted_lower_edges:
  assumes "(0::real) \<le> w"
  shows "sorted (map (\<lambda>i. real i * w + a) [0..<m])"
proof -
  have "mono_on UNIV (\<lambda>i::nat. real i * w + a)"
    using assms by (auto intro!: mono_onI mult_right_mono)
  then show ?thesis
    by (simp add: sorted_map sorted_wrt_iff_nth_less mono_on_def)
qed

lemma block_cutoffs_n_bins:
  assumes "0 < n_bins" and "samples c \<noteq> []"
  shows "block_cutoffs c None None n_bins =
           Inr (Seq (lower_bin_edges (Min (set (samples c))) (Max (set (samples c))) (nat n_bins)))"
proof -
  let ?mi = "Min (set (samples c))" and ?ma = "Max (set (samples c))"
  have m: "0 < nat n_bins" and e: "n_bins + 1 = int (nat n_bins) + 1"
    using assms(1) by simp_all
  obtain l where l: "linspace ?mi ?ma (int (nat n_bins) + 1) = Inr l"
    using linspace_length [of "int (nat n_bins) + 1" ?mi ?ma] by auto
  have "butlast l = lower_bin_edges ?mi ?ma (nat n_bins)"
    unfolding lower_bin_edges_def using linspace_butlast [OF m l] .
  then show ?thesis
    using assms l unfolding e [symmetric]
    by (simp add: block_cutoffs_def amin_def amax_def)
qed

lemma sorted_lower_bin_edges: "mi \<le> ma \<Longrightarrow> sorted (lower_bin_edges mi ma n)"
  unfolding lower_bin_edges_def by (rule sorted_lower_edges) simp

lemma lower_bin_edges_below_max:
  assumes "mi < ma" and "k \<in> set (lower_bin_edges mi ma n)"
  shows "k < ma"
proof -
  from assms(2) obtain i where i: "i < n" and k: "k = real i * ((ma - mi) / real n) + mi"
    by (auto simp: lower_bin_edges_def)
  have n: "0 < real n" using i by simp
  have "real i * ((ma - mi) / real n) < real n * ((ma - mi) / real n)"
    using i assms(1) n by (intro mult_strict_right_mono) simp_all
  also have "\<dots> = ma - mi" using n by simp
  finally show ?thesis using k by simp
qed

text \<open>
  Claim C7, as amended. For \<open>n_bins > 0\<close> without cutoffs, values and function, \<open>block\<close>
  digitizes a non-empty curve with the \<open>n_bins\<close> lower edges of the \<open>n_bins\<close> equal-width
  bins spanning \<open>[min, max]\<close>: \<open>linspace(min, max, n_bins + 1)\<close> without its last point,
  so the minimum is the first cutoff and only the maximum is left out.
\<close>

theorem block_n_bins_lower_edges:
  assumes "0 < n_bins" and "samples c \<noteq> []"
  shows "\<exists>ks. block_cutoffs c None None n_bins = Inr (Seq ks)
           \<and> ks = lower_bin_edges (Min (set (samples c))) (Max (set (samples c))) (nat n_bins)
           \<and> length ks = nat n_bins
           \<and> hd ks = Min (set (samples c))
           \<and> (Min (set (samples c)) < Max (set (samples c)) \<longrightarrow> Max (set (samples c)) \<notin> set ks)
           \<and> block c None None n_bins right None =
               Inr (c\<lparr>samples := map (\<lambda>v. real (searchsorted ks v right)) (samples c)\<rparr>)"
proof -
  let ?mi = "Min (set (samples c))" and ?ma = "Max (set (samples c))"
  let ?ks = "lower_bin_edges ?mi ?ma (nat n_bins)"
  have cut: "block_cutoffs c None None n_bins = Inr (Seq ?ks)"
    using assms by (rule block_cutoffs_n_bins)
  have len: "length ?ks = nat n_bins"
    by (simp add: lower_bin_edges_def)
  have "[0..<nat n_bins] = 0 # [1..<nat n_bins]"
    using assms(1) by (simp add: upt_rec)
  then have hd: "hd ?ks = ?mi"
    by (simp add: lower_bin_edges_def)
  have nomax: "?mi < ?ma \<longrightarrow> ?ma \<notin> set ?ks"
    using lower_bin_edges_below_max [of ?mi ?ma ?ma "nat n_bins"] by auto
  have "?mi \<le> ?ma" using assms(2) by (simp add: Min_le_iff)
  then have "sorted ?ks" by (rule sorted_lower_bin_edges)
  then have mono: "monotonicity ?ks = 1" by (simp add: monotonicity_def)
  have blk: "block c None None n_bins right None =
               Inr (c\<lparr>samples := map (\<lambda>v. real (searchsorted ?ks v right)) (samples c)\<rparr>)"
    by (simp add: block_def cut digitize_def digitize1_def mono comp_def)
  show ?thesis using cut len hd nomax blk by blast
qed

text \<open>
  The claim as stated fails: for the samples \<open>[1, 2, 3, 4, 5]\<close> and \<open>n_bins = 2\<close> the code
  digitizes with the two cutoffs \<open>[1, 3]\<close>, where the interior boundaries are \<open>[3]\<close>.
\<close>

theorem block_n_bins_counterexample:
  "block_cutoffs c5 None None 2 = Inr (Seq [1, 3])
   \<and> spec_interior_cutoffs (Min (set (samples c5))) (Max (set (samples c5))) 2 = [3]
   \<and> block_cutoffs c5 None None 2
       \<noteq> Inr (Seq (spec_interior_cutoffs (Min (set (samples c5))) (Max (set (samples c5))) 2))"
proof -
  have u: "[0..<3] = [0, 1, 2]" and v: "[Suc 0..<2] = [1]" by (simp_all add: upt_rec)
  have a: "block_cutoffs c5 None None 2 = Inr (Seq [1, 3])"
    by (simp add: block_cutoffs_def amin_def amax_def linspace_def c5_def u Let_def)
  have b: "spec_interior_cutoffs (Min (set (samples c5))) (Max (set (samples c5))) 2 = [3]"
    by (simp add: spec_interior_cutoffs_def c5_def v)
  show ?thesis unfolding b using a by simp
qed

theorem block_n_bins_lower_edges_witness:
  "block_cutoffs c5 None None 2 = Inr (Seq [1, 3])
   \<and> block c5 None None 2 False None = Inr (c5\<lparr>samples := [1, 1, 2, 2, 2]\<rparr>)"
proof -
  have h: "(0::int) < 2" "samples c5 \<noteq> []" by (simp_all add: c5_def)
  have u: "[0..<2] = [0, 1]" by (simp add: upt_rec)
  have k: "lower_bin_edges (Min (set (samples c5))) (Max (set (samples c5))) (nat 2) = [1, 3]"
    by (simp add: lower_bin_edges_def c5_def u)
  from block_n_bins_lower_edges [OF h, of False] show ?thesis
    unfolding k by (simp add: searchsorted_def c5_def)
qed

text \<open>With a reducing function, whenever the edge detection finds at most one zone top,
  the loop binds no \<open>base\<close> and the assignment of the last segment fails.\<close>

lemma block_function_single_zone:
  assumes "block_cutoffs c cutoffs None n_bins = Inr k"
    and "block_digitize (samples c) k right = Inr zone"
    and "length (fst (find_edges (map real zone))) \<le> 1"
  shows "block c cutoffs None n_bins right (Some f) = Inl UnboundLocalError"
proof -
  obtain tops vals where e: "find_edges (map real zone) = (tops, vals)"
    by (cases "find_edges (map real zone)")
  then have "length tops \<le> 1" using assms(3) by simp
  then have z: "zip (butlast tops) (tl tops) = []"
    by (cases tops) simp_all
  show ?thesis
    using assms(1,2) e by (simp add: block_def z del: zip_eq_Nil_iff)
qed

text \<open>With two zones the last one is reduced like the first.\<close>

lemma block_two_zones_reduced:
  "block c5 (Some (Seq [3])) None 0 False (Some mean)
     = Inr (c5\<lparr>samples := [3 / 2, 3 / 2, 4, 4, 4]\<rparr>)"
  by (simp add: block_def block_cutoffs_def digitize_def digitize1_def monotonicity_def
      searchsorted_def find_edges_def fill_def fill_from_def slice_def mean_def c5_def upt_rec)

text \<open>
  Claim C8 fails on a curve that is a single zone: the loop over the zone edges does not
  run, \<open>base\<close> is unbound when the last segment is assigned, and \<open>block\<close> raises
  UnboundLocalError, with a reducing function as with a values list.
\<close>

theorem block_single_zone_unbound:
  "block \<lparr>samples = [1, 2, 3], start = 0, step = 1, mnemonic = None\<rparr>
         (Some (Seq [10])) None 0 False (Some mean) = Inl UnboundLocalError
   \<and> block \<lparr>samples = [1, 2, 3], start = 0, step = 1, mnemonic = None\<rparr>
         None (Some [7, 10]) 0 False None = Inl UnboundLocalError"
  by (simp add: block_def block_cutoffs_def digitize_def digitize1_def monotonicity_def
      searchsorted_def find_edges_def getitem_def upt_rec)

subsection \<open>Point read\<close>

lemma find_previous_at_or_before: "at_or_before find_previous"
proof -
  have "i < length a \<and> a ! i \<le> v \<and> (\<forall>j < length a. a ! j \<le> v \<longrightarrow> j \<le> i)"
    if "find_previous a v = Inr (i, t)" for a v i t
  proof -
    let ?f = "filter (\<lambda>i. a ! i \<le> v) [0..<length a]"
    from that have ne: "?f \<noteq> []" and i: "i = last ?f"
      by (auto simp: find_previous_def Let_def split: list.splits)
    have "last ?f \<in> set ?f" using ne by (rule last_in_set)
    then have 1: "i < length a \<and> a ! i \<le> v" using i by auto
    have s: "sorted ?f" by (simp add: sorted_wrt_filter)
    have "j \<le> i" if "j < length a" "a ! j \<le> v" for j
    proof -
      from that have "j \<in> set ?f" by simp
      then obtain k where k: "k < length ?f" "?f ! k = j"
        unfolding in_set_conv_nth by blast
      have "?f ! k \<le> ?f ! (length ?f - 1)"
        using s k(1) by (intro sorted_nth_mono) auto
      then show ?thesis using k(2) i ne by (simp add: last_conv_nth)
    qed
    with 1 show ?thesis by blast
  qed
  then show ?thesis unfolding at_or_before_def by blast
qed

text \<open>The same for every non-empty curve, every query at or beyond the stop and every
  helper that returns the index at or before the query: the read ends in an exception.\<close>

lemma read_at_beyond_stop:
  assumes ne: "samples c \<noteq> []" and d: "stop c \<le> d" and fp: "at_or_before fp"
    and b: "basis c = Inr b"
  shows "read_at fp c d ''linear'' False =
           (case fp b d of Inl e \<Rightarrow> Inl e | Inr r \<Rightarrow> Inl IndexError)"
proof (cases "fp b d")
  case (Inl e)
  then show ?thesis by (simp add: read_at_def private_read_at_def b)
next
  case (Inr r)
  obtain i t where r: "r = (i, t)" by (cases r)
  let ?n = "length (samples c)"
  have n1: "1 \<le> ?n" using ne by (cases "samples c") simp_all
  from basis_points [OF ne] b
  have len: "length b = ?n" and lst': "b ! (?n - 1) = stop c" by auto
  from fp Inr r have i: "i < length b" and mx: "\<forall>j < length b. b ! j \<le> d \<longrightarrow> j \<le> i"
    unfolding at_or_before_def by blast+
  have "?n - 1 \<le> i" using mx len lst' d ne by simp
  with i len have "i = ?n - 1" by simp
  then have "int i + 1 = int ?n" using n1 by simp
  then have "getitem (samples c) (int i + 1) = Inl IndexError"
    by (simp add: getitem_def)
  moreover have "\<exists>u. getitem (samples c) (int i) = Inr u"
    using i len by (simp add: getitem_def)
  ultimately show ?thesis
    using Inr r by (auto simp: read_at_def private_read_at_def b method_dict_def)
qed

text \<open>
  Claim C1 fails on the code: for the samples \<open>[1, 2, 3, 4, 5]\<close> on the basis
  \<open>[0, 1, 2, 3, 4]\<close>, reading with linear interpolation at the stop \<open>4\<close>, and at \<open>9\<close> beyond
  it, raises IndexError: the index located is that of the last sample and \<open>self[i+1]\<close> is
  out of range.
\<close>

theorem read_at_stop_index_error:
  "stop c5 = 4
   \<and> read_at find_previous c5 4 ''linear'' False = Inl IndexError
   \<and> read_at find_previous c5 9 ''linear'' False = Inl IndexError"
proof -
  have s: "stop c5 = 4" by (simp add: stop_def c5_def)
  have u: "[0..<5] = [0, 1, 2, 3, 4]" by (simp add: upt_rec)
  have b: "basis c5 = Inr [0, 1, 2, 3, 4]"
    by (simp add: basis_def s linspace_def Let_def u) (simp add: c5_def)
  have sm: "samples c5 = [1, 2, 3, 4, 5]" by (simp add: c5_def)
  have "read_at find_previous c5 4 ''linear'' False = Inl IndexError"
    by (simp add: read_at_def private_read_at_def b find_previous_def u method_dict_def getitem_def sm)
  moreover have "read_at find_previous c5 9 ''linear'' False = Inl IndexError"
    by (simp add: read_at_def private_read_at_def b find_previous_def u method_dict_def getitem_def sm)
  ultimately show ?thesis using s by simp
qed

subsection \<open>Basis resampling\<close>

lemma linspace_fl_length:
  "0 \<le> num \<Longrightarrow> \<exists>ys. linspace_fl ar a b num = Inr ys \<and> length ys = nat num"
  by (simp add: linspace_fl_def Let_def)

lemma linspace_fl_last:
  assumes "linspace_fl ar a b (int n) = Inr ys" and "1 < n"
  shows "ys ! (n - 1) = b"
  using assms by (auto simp: linspace_fl_def Let_def split: if_splits)

lemma linspace_fl_exact: "linspace_fl exact a b num = linspace a b num"
proof -
  have "map (\<lambda>i. real i / real dv * (b - a) + a) [0..<n] = map (\<lambda>i. real i * ((b - a) / real dv) + a) [0..<n]"
    for dv n :: nat
    by simp
  then show ?thesis
    by (auto simp: linspace_fl_def linspace_def exact_def Let_def comp_def)
qed

lemma basis_fl_exact: "basis_fl exact c = basis c"
proof -
  have "stop_fl exact c = stop c"
    by (simp add: stop_fl_def stop_def exact_def)
  then show ?thesis
    by (simp only: basis_fl_def basis_def linspace_fl_exact)
qed

lemma interp_scan_hit:
  "sorted (map fst ps) \<Longrightarrow> distinct (map fst ps) \<Longrightarrow> (x, y) \<in> set ps \<Longrightarrow> interp_scan ps x = y"
proof (induction ps x rule: interp_scan.induct)
  case (1 x)
  then show ?case by simp
next
  case (2 x0 y0 x)
  then show ?case by simp
next
  case (3 x0 y0 x1 y1 ps x)
  show ?case
  proof (cases "(x, y) = (x0, y0)")
    case True
    then show ?thesis using "3.prems" by auto
  next
    case False
    then have mem: "(x, y) \<in> set ((x1, y1) # ps)" using "3.prems"(3) by auto
    then have "x1 \<le> x" using "3.prems"(1) by force
    then have nl: "\<not> x < x1" by simp
    have "interp_scan ((x1, y1) # ps) x = y"
      using "3.IH" [OF nl] "3.prems"(1,2) mem by simp
    then show ?thesis using nl by simp
  qed
qed

lemma sorted_bounds:
  assumes "sorted xs" and "x \<in> set xs"
  shows "hd xs \<le> x \<and> x \<le> last xs"
proof -
  from assms(2) obtain i where i: "i < length xs" "xs ! i = x" by (auto simp: in_set_conv_nth)
  have "xs ! 0 \<le> xs ! i" using assms(1) i(1) by (intro sorted_nth_mono) simp_all
  moreover have "xs ! i \<le> xs ! (length xs - 1)" using assms(1) i(1) by (intro sorted_nth_mono) simp_all
  moreover have "xs \<noteq> []" using assms(2) by auto
  ultimately show ?thesis using i(2) by (simp add: hd_conv_nth last_conv_nth)
qed

lemma distinct_map_sort_key: "distinct (map f (sort_key f xs)) = distinct (map f xs)"
  by (induction xs) (simp_all add: distinct_insort_key)

lemma interp1d_hit:
  assumes len: "length xs = length ys" and ne: "xs \<noteq> []" and d: "distinct xs"
  shows "\<exists>f. interp1d xs ys fill_value = Inr f \<and> (\<forall>i < length xs. f (xs ! i) = Some (ys ! i))"
proof -
  let ?ps = "sort_key fst (zip xs ys)"
  have s: "sorted (map fst ?ps)" by simp
  have dp: "distinct (map fst ?ps)"
    using d len by (simp add: distinct_map_sort_key)
  have hit: "np_interp1 (map fst ?ps) (map snd ?ps) (xs ! i) = ys ! i
             \<and> hd (map fst ?ps) \<le> xs ! i \<and> xs ! i \<le> last (map fst ?ps)" if i: "i < length xs" for i
  proof -
    have mem: "(xs ! i, ys ! i) \<in> set ?ps"
      using i len by (auto simp: set_zip)
    then have "xs ! i \<in> set (map fst ?ps)" by force
    from sorted_bounds [OF s this]
    have bnd: "hd (map fst ?ps) \<le> xs ! i \<and> xs ! i \<le> last (map fst ?ps)" .
    have "zip (map fst ?ps) (map snd ?ps) = ?ps" by (simp add: zip_map_fst_snd)
    then have "np_interp1 (map fst ?ps) (map snd ?ps) (xs ! i) = interp_scan ?ps (xs ! i)"
      using bnd by (simp add: np_interp1_def)
    also have "\<dots> = ys ! i" using interp_scan_hit [OF s dp mem] .
    finally show ?thesis using bnd by simp
  qed
  define f where "f = (\<lambda>x_new. if x_new < hd (map fst ?ps) \<or> last (map fst ?ps) < x_new
                               then fill_value
                               else Some (np_interp1 (map fst ?ps) (map snd ?ps) x_new))"
  have 1: "interp1d xs ys fill_value = Inr f"
    using len ne unfolding f_def by (simp add: interp1d_def Let_def)
  have 2: "f (xs ! i) = Some (ys ! i)" if "i < length xs" for i
    using hit [OF that] unfolding f_def by (simp add: not_less)
  show ?thesis using 1 2 by blast
qed

lemma to_basis_result:
  assumes "getitem bs 0 = Inr a" and "getitem bs (- 1) = Inr z" and "getitem bs 1 = Inr a1"
    and "fsub ar a1 a \<noteq> 0"
    and "linspace_fl ar a z (\<lceil>fdiv ar (fsub ar z a) (fsub ar a1 a)\<rceil> + 1) = Inr nb"
    and "basis_fl ar c = Inr b" and "interp1d b (samples c) u = Inr f"
  shows "to_basis ar c bs u =
           Inr \<lparr>samples = map f nb, start = a, step = fsub ar a1 a, mnemonic = mnemonic c\<rparr>"
  using assms by (simp add: to_basis_def Let_def)

lemma basis_fl_shape:
  assumes "2 \<le> length (samples c)" and "basis_fl ar c = Inr b"
  shows "length b = length (samples c) \<and> last b = stop_fl ar c
         \<and> getitem b 0 = Inr (b ! 0) \<and> getitem b 1 = Inr (b ! 1) \<and> getitem b (- 1) = Inr (last b)"
proof -
  let ?n = "length (samples c)"
  have n: "1 < ?n" using assms(1) by linarith
  have lin: "linspace_fl ar (start c) (stop_fl ar c) (int ?n) = Inr b"
    using assms(2) by (simp add: basis_fl_def)
  have len: "length b = ?n"
    using linspace_fl_length [of "int ?n" ar "start c" "stop_fl ar c"] lin by simp
  have ne: "b \<noteq> []" using len n by auto
  have lst: "last b = stop_fl ar c"
    using linspace_fl_last [OF lin n] ne len by (simp add: last_conv_nth)
  have g0: "getitem b 0 = Inr (b ! 0)" using ne by (simp add: getitem_def)
  have g1: "getitem b 1 = Inr (b ! 1)" using len n by (simp add: getitem_def)
  have gl: "getitem b (- 1) = Inr (last b)"
    using ne len n by (simp add: getitem_def last_conv_nth nat_diff_distrib')
  show ?thesis using len lst g0 g1 gl by simp
qed

lemma to_basis_round_trip:
  assumes n2: "2 \<le> length (samples c)"
    and b: "basis_fl ar c = Inr b"
    and d: "distinct b"
    and b0: "b ! 0 = start c"
    and nz: "fsub ar (b ! 1) (b ! 0) \<noteq> 0"
    and cnt: "\<lceil>fdiv ar (fsub ar (last b) (b ! 0)) (fsub ar (b ! 1) (b ! 0))\<rceil>
                = int (length (samples c)) - 1"
  shows "to_basis ar c b None =
           Inr \<lparr>samples = map Some (samples c), start = start c,
                step = fsub ar (b ! 1) (b ! 0), mnemonic = mnemonic c\<rparr>"
proof -
  let ?n = "length (samples c)"
  from basis_fl_shape [OF n2 b]
  have len: "length b = ?n" and lst: "last b = stop_fl ar c"
    and g0: "getitem b 0 = Inr (b ! 0)" and g1: "getitem b 1 = Inr (b ! 1)"
    and gl: "getitem b (- 1) = Inr (last b)"
    by simp_all
  have bne: "b \<noteq> []" using len n2 by auto
  have same: "linspace_fl ar (b ! 0) (last b) (int ?n) = Inr b"
    using b by (simp add: basis_fl_def b0 lst)
  have cnt': "\<lceil>fdiv ar (fsub ar (last b) (b ! 0)) (fsub ar (b ! 1) (b ! 0))\<rceil> + 1 = int ?n"
    using cnt by simp
  have lin: "linspace_fl ar (b ! 0) (last b)
               (\<lceil>fdiv ar (fsub ar (last b) (b ! 0)) (fsub ar (b ! 1) (b ! 0))\<rceil> + 1) = Inr b"
    by (simp only: cnt' same)
  from interp1d_hit [OF len bne d, of None]
  obtain f where f: "interp1d b (samples c) None = Inr f"
    and hit: "\<forall>i < length b. f (b ! i) = Some (samples c ! i)"
    by blast
  have m: "map f b = map Some (samples c)"
  proof (rule nth_equalityI)
    show "length (map f b) = length (map Some (samples c))" using len by simp
  next
    fix i assume "i < length (map f b)"
    then have i: "i < length b" by simp
    then have "f (b ! i) = Some (samples c ! i)" using hit by blast
    then show "map f b ! i = map Some (samples c) ! i" using i len by simp
  qed
  show ?thesis
    using to_basis_result [OF g0 gl g1 nz lin b f] unfolding m b0 .
qed

text \<open>Where the quotient rounds up to \<open>N\<close>, as it does in floating point for some
  curves, the result has one sample more than the curve.\<close>

lemma to_basis_extra_sample:
  assumes n2: "2 \<le> length (samples c)"
    and b: "basis_fl ar c = Inr b"
    and nz: "fsub ar (b ! 1) (b ! 0) \<noteq> 0"
    and cnt: "\<lceil>fdiv ar (fsub ar (last b) (b ! 0)) (fsub ar (b ! 1) (b ! 0))\<rceil>
                = int (length (samples c))"
  shows "\<exists>r. to_basis ar c b u = Inr r \<and> length (samples r) = length (samples c) + 1"
proof -
  let ?n = "length (samples c)"
  from basis_fl_shape [OF n2 b]
  have len: "length b = ?n"
    and g0: "getitem b 0 = Inr (b ! 0)" and g1: "getitem b 1 = Inr (b ! 1)"
    and gl: "getitem b (- 1) = Inr (last b)"
    by simp_all
  have bne: "b \<noteq> []" using len n2 by auto
  obtain nb where nb: "linspace_fl ar (b ! 0) (last b) (int ?n + 1) = Inr nb"
    and lnb: "length nb = nat (int ?n + 1)"
    using linspace_fl_length [of "int ?n + 1" ar "b ! 0" "last b"] by auto
  obtain f where f: "interp1d b (samples c) u = Inr f"
    using len bne by (auto simp: interp1d_def Let_def)
  have lin: "linspace_fl ar (b ! 0) (last b)
               (\<lceil>fdiv ar (fsub ar (last b) (b ! 0)) (fsub ar (b ! 1) (b ! 0))\<rceil> + 1) = Inr nb"
    unfolding cnt using nb .
  show ?thesis
    using to_basis_result [OF g0 gl g1 nz lin b f] lnb by (simp add: nat_add_distrib)
qed

lemma basis_eq:
  assumes "samples c \<noteq> []"
  shows "basis c = Inr (map (\<lambda>i. start c + real i * step c) [0..<length (samples c)])"
proof -
  let ?n = "length (samples c)"
  obtain b where b: "linspace (start c) (stop c) (int ?n) = Inr b" and len: "length b = ?n"
    using linspace_length [of "int ?n" "start c" "stop c"] by auto
  have d: "stop c - start c = real (?n - 1) * step c"
    using assms by (simp add: stop_def of_nat_diff Suc_leI)
  have "b ! i = start c + real i * step c" if i: "i < ?n" for i
  proof (cases "1 < ?n")
    case True
    then have nz: "real (?n - 1) \<noteq> 0" by simp
    have q: "(stop c - start c) / real (?n - 1) = step c"
      unfolding d using nz by simp
    show ?thesis
    proof (cases "i = ?n - 1")
      case True
      then have "b ! i = stop c" using linspace_nth [OF b i] \<open>1 < ?n\<close> by simp
      then show ?thesis using d True by simp
    next
      case False
      then have "b ! i = real i * ((stop c - start c) / real (?n - 1)) + start c"
        using linspace_nth [OF b i] \<open>1 < ?n\<close> by simp
      then show ?thesis unfolding q by simp
    qed
  next
    case False
    then have "i = 0" using i by simp
    then show ?thesis using linspace_nth [OF b i] False by simp
  qed
  then have "b = map (\<lambda>i. start c + real i * step c) [0..<?n]"
    using len by (intro nth_equalityI) simp_all
  then show ?thesis using b by (simp add: basis_def)
qed

text \<open>In exact arithmetic the conditions of the round trip hold for every curve with at
  least two samples and a step other than 0.\<close>

lemma to_basis_round_trip_exact:
  assumes "2 \<le> length (samples c)" and "step c \<noteq> 0"
  shows "\<exists>b. basis c = Inr b
           \<and> to_basis exact c b None =
               Inr \<lparr>samples = map Some (samples c), start = start c, step = step c,
                    mnemonic = mnemonic c\<rparr>"
proof -
  let ?n = "length (samples c)"
  let ?g = "\<lambda>i. start c + real i * step c"
  let ?b = "map ?g [0..<?n]"
  have ne: "samples c \<noteq> []" using assms(1) by auto
  have n2: "1 < ?n" using assms(1) by linarith
  have b: "basis c = Inr ?b" using ne by (rule basis_eq)
  have bf: "basis_fl exact c = Inr ?b" using b by (simp add: basis_fl_exact)
  have inj: "inj_on ?g (set [0..<?n])"
    using assms(2) by (auto intro!: inj_onI)
  have d: "distinct ?b" using inj by (simp add: distinct_map)
  have b0: "?b ! 0 = start c" using ne by simp
  have b1: "?b ! 1 = start c + step c" using n2 by simp
  have "?b ! (?n - 1) = ?g (?n - 1)"
    using ne by (intro nth_map_upt [THEN trans]) simp_all
  then have bl: "last ?b = start c + real (?n - 1) * step c"
    using ne by (simp add: last_conv_nth)
  have st: "fsub exact (?b ! 1) (?b ! 0) = step c"
    unfolding b0 b1 by (simp add: exact_def)
  have nz: "fsub exact (?b ! 1) (?b ! 0) \<noteq> 0"
    unfolding st using assms(2) .
  have "fdiv exact (fsub exact (last ?b) (?b ! 0)) (fsub exact (?b ! 1) (?b ! 0))
          = real_of_int (int ?n - 1)"
    unfolding st unfolding b0 bl using assms(2) ne by (simp add: exact_def of_nat_diff Suc_leI)
  then have cnt: "\<lceil>fdiv exact (fsub exact (last ?b) (?b ! 0)) (fsub exact (?b ! 1) (?b ! 0))\<rceil>
                    = int ?n - 1"
    by (simp only: ceiling_of_int)
  from to_basis_round_trip [OF assms(1) bf d b0 nz cnt]
  show ?thesis using b unfolding st by blast
qed




subsection \<open>Construction from irregular depths\<close>

lemma getitem_first: "xs \<noteq> [] \<Longrightarrow> getitem xs 0 = Inr (hd xs)"
  by (simp add: getitem_def hd_conv_nth)

lemma getitem_last: "xs \<noteq> [] \<Longrightarrow> getitem xs (- 1) = Inr (last xs)"
  by (cases xs rule: rev_cases) (simp_all add: getitem_def nat_add_distrib nth_append)

lemma np_diff_nonneg:
  assumes "sorted a" and "x \<in> set (np_diff a)"
  shows "0 \<le> x"
proof -
  from assms(2) have "\<exists>i. i < length (tl a) \<and> x = tl a ! i - a ! i"
    by (auto simp: np_diff_def set_zip)
  then obtain i where i2: "i < length (tl a)" and x: "x = tl a ! i - a ! i"
    by blast
  have i: "i < length a" "i < length (tl a)" using i2 by simp_all
  have "tl a ! i = a ! Suc i" using i by (simp add: nth_tl)
  moreover have "a ! i \<le> a ! Suc i"
    using assms(1) i by (intro sorted_nth_mono) simp_all
  ultimately show ?thesis using x by simp
qed

lemma median_nonneg:
  assumes "\<forall>x \<in> set a. 0 \<le> x" and "median a = Some m"
  shows "0 \<le> m"
proof -
  have el: "0 \<le> sort a ! i" if "i < length a" for i
  proof -
    have "sort a ! i \<in> set (sort a)" using that by (intro nth_mem) simp
    then show ?thesis using assms(1) by simp
  qed
  have n: "length a \<noteq> 0" using assms(2) by (auto simp: median_def Let_def)
  show ?thesis
  proof (cases "odd (length a)")
    case True
    then have "m = sort a ! (length a div 2)"
      using assms(2) n by (simp add: median_def Let_def)
    moreover have "length a div 2 < length a" using n by linarith
    ultimately show ?thesis using el by simp
  next
    case False
    then have m: "m = (sort a ! (length a div 2 - 1) + sort a ! (length a div 2)) / 2"
      using assms(2) n by (simp add: median_def Let_def)
    have pos: "0 < length a" using n by simp
    have "length a div 2 < length a" and "length a div 2 - 1 < length a" using pos by linarith+
    then have "0 \<le> sort a ! (length a div 2 - 1)" and "0 \<le> sort a ! (length a div 2)"
      using el by blast+
    then show ?thesis unfolding m by simp
  qed
qed

lemma irregular_depth_steps:
  assumes irr: "\<not> allclose (map (\<lambda>x. x - mean (np_diff depth)) (np_diff depth))
                           (replicate (length (np_diff depth)) 0)"
    and med: "median (np_diff depth) = Some m" and nz: "m \<noteq> 0"
    and len: "length (lc_data curve) = length depth"
  shows "from_lasio_curve curve (Some depth) basis_arg start_arg stop_arg step_arg =
           Inr ([irregular_warning],
                \<lparr>samples = map (np_interp1 depth (lc_data curve))
                            (map (\<lambda>i. hd depth + real i * m)
                               [0..<nat \<lceil>(last depth + 1 / 100000 - hd depth) / m\<rceil>]),
                 start = hd depth, step = m, mnemonic = Some (lc_mnemonic curve)\<rparr>)
         \<and> arange (hd depth) (last depth + 1 / 100000) m =
             Inr (map (\<lambda>i. hd depth + real i * m)
                    [0..<nat \<lceil>(last depth + 1 / 100000 - hd depth) / m\<rceil>])
         \<and> depth \<noteq> []"
proof -
  let ?b = "map (\<lambda>i. hd depth + real i * m) [0..<nat \<lceil>(last depth + 1 / 100000 - hd depth) / m\<rceil>]"
  let ?d = "map (np_interp1 depth (lc_data curve)) ?b"
  have ne: "depth \<noteq> []"
  proof
    assume "depth = []"
    then have "np_diff depth = []" by (simp add: np_diff_def)
    then show False using irr by (simp add: allclose_def)
  qed
  have g0: "getitem depth 0 = Inr (hd depth)" using ne by (rule getitem_first)
  have gl: "getitem depth (- 1) = Inr (last depth)" using ne by (rule getitem_last)
  have ar: "arange (hd depth) (last depth + 1 / 100000) m = Inr ?b"
    using nz by (simp add: arange_def)
  have ip: "np_interp ?b depth (lc_data curve) = Inr ?d"
    using ne len by (simp add: np_interp_def)
  have un: "uneven_sampling curve (Some depth) basis_arg start_arg stop_arg step_arg =
              Inr ([irregular_warning], ?d, Some ?b, Some (hd depth),
                   Some (last depth + 1 / 100000), m)"
    using irr by (simp add: uneven_sampling_def Let_def med g0 gl ar ip)
  have ss: "start_and_step curve (Some ?b) (Some (hd depth)) (Some (last depth + 1 / 100000)) m
              = Inr (hd depth, m)"
    using nz by (simp add: start_and_step_def)
  have "from_lasio_curve curve (Some depth) basis_arg start_arg stop_arg step_arg =
          Inr ([irregular_warning],
               \<lparr>samples = ?d, start = hd depth, step = m, mnemonic = Some (lc_mnemonic curve)\<rparr>)"
    by (simp add: from_lasio_curve_def un ss)
  with ar ne show ?thesis by simp
qed

text \<open>
  Claim C9, as amended. Given a non-decreasing depth array whose differences are not all
  within tolerance of their mean, a median difference other than 0 and as many data
  samples as depths, \<open>from_lasio_curve\<close> succeeds with the irregular-sampling warning: the
  step is the median difference, the start the first depth, the uniform basis runs from
  the first depth to the last depth plus \<open>0.00001\<close> in steps of the median and is not
  empty, and the stored samples are the data interpolated linearly onto that basis.
\<close>

theorem irregular_depth_resampled:
  assumes irr: "\<not> allclose (map (\<lambda>x. x - mean (np_diff depth)) (np_diff depth))
                           (replicate (length (np_diff depth)) 0)"
    and srt: "sorted depth"
    and med: "median (np_diff depth) = Some m" and nz: "m \<noteq> 0"
    and len: "length (lc_data curve) = length depth"
  shows "\<exists>basis1 data1.
           arange (hd depth) (last depth + 1 / 100000) m = Inr basis1
           \<and> basis1 = map (\<lambda>i. hd depth + real i * m)
                         [0..<nat \<lceil>(last depth + 1 / 100000 - hd depth) / m\<rceil>]
           \<and> basis1 \<noteq> []
           \<and> np_interp basis1 depth (lc_data curve) = Inr data1
           \<and> data1 = map (np_interp1 depth (lc_data curve)) basis1
           \<and> from_lasio_curve curve (Some depth) basis_arg start_arg stop_arg step_arg =
               Inr ([irregular_warning],
                    \<lparr>samples = data1, start = hd depth, step = m,
                     mnemonic = Some (lc_mnemonic curve)\<rparr>)"
proof -
  let ?k = "nat \<lceil>(last depth + 1 / 100000 - hd depth) / m\<rceil>"
  let ?b = "map (\<lambda>i. hd depth + real i * m) [0..<?k]"
  from irregular_depth_steps [OF irr med nz len, of basis_arg start_arg stop_arg step_arg]
  have res: "from_lasio_curve curve (Some depth) basis_arg start_arg stop_arg step_arg =
           Inr ([irregular_warning],
                \<lparr>samples = map (np_interp1 depth (lc_data curve)) ?b,
                 start = hd depth, step = m, mnemonic = Some (lc_mnemonic curve)\<rparr>)"
    and ar: "arange (hd depth) (last depth + 1 / 100000) m = Inr ?b"
    and ne: "depth \<noteq> []"
    by simp_all
  have "0 \<le> m"
    using median_nonneg [OF _ med] np_diff_nonneg [OF srt] by blast
  then have mpos: "0 < m" using nz by simp
  have "depth ! 0 \<le> depth ! (length depth - 1)"
    using srt ne by (intro sorted_nth_mono) simp_all
  then have "hd depth \<le> last depth"
    using ne by (simp add: hd_conv_nth last_conv_nth)
  then have "0 < (last depth + 1 / 100000 - hd depth) / m"
    using mpos by simp
  then have "0 < \<lceil>(last depth + 1 / 100000 - hd depth) / m\<rceil>" by linarith
  then have bne: "?b \<noteq> []" by simp
  have ip: "np_interp ?b depth (lc_data curve) = Inr (map (np_interp1 depth (lc_data curve)) ?b)"
    using ne len by (simp add: np_interp_def)
  show ?thesis using res ar bne ip by blast
qed

text \<open>
  The claim as stated fails: the depths \<open>[0, 0, 0, 1]\<close> are irregular with median
  difference 0, and \<open>np.arange\<close> with a step of 0 raises ValueError.
\<close>

theorem irregular_depth_counterexample:
  "\<not> allclose (map (\<lambda>x. x - mean (np_diff [0, 0, 0, 1])) (np_diff [0, 0, 0, 1]))
               (replicate (length (np_diff [0, 0, 0, 1])) 0)
   \<and> sorted [0, 0, 0, 1 :: real]
   \<and> length (lc_data las_repeated) = length [0, 0, 0, 1 :: real]
   \<and> from_lasio_curve las_repeated (Some [0, 0, 0, 1]) None None None (1524 / 10000)
       = Inl ValueError"
proof -
  have d: "np_diff [0, 0, 0, 1] = [0, 0, 1]" by (simp add: np_diff_def)
  have irr: "\<not> allclose (map (\<lambda>x. x - mean [0, 0, 1]) [0, 0, 1]) (replicate (length [0, 0, 1 :: real]) 0)"
    by (simp add: allclose_def mean_def)
  have m: "median [0, 0, 1] = Some 0"
    by (simp add: median_def Let_def)
  have "uneven_sampling las_repeated (Some [0, 0, 0, 1]) None None None (1524 / 10000)
          = Inl ValueError"
    using irr by (simp add: uneven_sampling_def d Let_def m getitem_def arange_def)
  then show ?thesis using irr by (simp add: from_lasio_curve_def d las_repeated_def)
qed

theorem irregular_depth_resampled_witness:
  "from_lasio_curve las_irregular (Some [0, 1, 2, 4, 5]) None None None (1524 / 10000)
     = Inr ([irregular_warning],
            \<lparr>samples = [10, 20, 30, 40, 50, 60], start = 0, step = 1, mnemonic = Some ''GR''\<rparr>)"
proof -
  have d: "np_diff [0, 1, 2, 4, 5] = [1, 1, 2, 1]" by (simp add: np_diff_def)
  have irr: "\<not> allclose (map (\<lambda>x. x - mean (np_diff [0, 1, 2, 4, 5])) (np_diff [0, 1, 2, 4, 5]))
                         (replicate (length (np_diff [0, 1, 2, 4, 5])) 0)"
    unfolding d by (simp add: allclose_def mean_def)
  have srt: "sorted [0, 1, 2, 4, 5 :: real]" by simp
  have m: "median (np_diff [0, 1, 2, 4, 5]) = Some 1"
    unfolding d by (simp add: median_def Let_def)
  have nz: "(1::real) \<noteq> 0" by simp
  have len: "length (lc_data las_irregular) = length [0, 1, 2, 4, 5 :: real]"
    by (simp add: las_irregular_def)
  have u: "[0..<6] = [0, 1, 2, 3, 4, 5]" by (simp add: upt_rec)
  have c: "nat \<lceil>((5::real) + 1 / 100000 - 0) / 1\<rceil> = 6" by simp
  from irregular_depth_resampled [OF irr srt m nz len, of None None None "1524 / 10000"]
  show ?thesis
    by (simp add: c u np_interp1_def las_irregular_def)
qed

end
